theory Spec2Isabelle
  imports Main "HOL-Library.AList"
begin

section \<open>Strings and arrays of the host language\<close>

text \<open>
  A string of the program is a sequence of UTF-16 code units; \<open>length\<close> counts code
  units, as \<open>String.prototype.length\<close> and \<open>split('')\<close> do.
\<close>

type_synonym jsstring = "nat list"

text \<open>
  An array that the code writes by index: reading outside the array or reading a hole
  gives \<open>undefined\<close> (\<open>None\<close>); writing at or beyond the end extends the array, leaving
  holes in between.
\<close>

definition js_get :: "'a option list \<Rightarrow> nat \<Rightarrow> 'a option" where
  "js_get xs i = (if i < length xs then xs ! i else None)"

definition js_set :: "'a option list \<Rightarrow> nat \<Rightarrow> 'a \<Rightarrow> 'a option list" where
  "js_set xs i v =
     (if i < length xs then xs[i := Some v]
      else xs @ replicate (i - length xs) None @ [Some v])"

text \<open>
  \<open>Array.prototype.indexOf\<close>: the first index holding a value strictly equal to the
  one searched for. Holes are skipped, and the arrays searched here hold strings only, so a
  search for \<open>undefined\<close> finds nothing.
\<close>

fun indexOf :: "'a option list \<Rightarrow> 'a option \<Rightarrow> nat option" where
  "indexOf [] x = None"
| "indexOf (y # ys) x =
     (if x \<noteq> None \<and> y = x then Some 0 else map_option Suc (indexOf ys x))"

text \<open>\<open>Array.prototype.every\<close> does not call the predicate on holes.\<close>

definition js_every :: "('a \<Rightarrow> bool) \<Rightarrow> 'a option list \<Rightarrow> bool" where
  "js_every P xs = list_all (\<lambda>x. case x of None \<Rightarrow> True | Some v \<Rightarrow> P v) xs"

section \<open>Word repository\<close>

text \<open>
  The code units of the accent map: U+00E2, U+00C2 to \<open>a\<close>; U+00EE, U+00CE to \<open>i\<close>;
  U+00FB, U+00DB to \<open>u\<close>.
\<close>

definition accentMap :: "nat \<Rightarrow> nat option" where
  "accentMap ch =
     (if ch = 226 \<or> ch = 194 then Some 97
      else if ch = 238 \<or> ch = 206 then Some 105
      else if ch = 251 \<or> ch = 219 then Some 117
      else None)"

definition normalizeAccentedChars :: "jsstring \<Rightarrow> jsstring" where
  "normalizeAccentedChars text =
     map (\<lambda>ch. case accentMap ch of Some r \<Rightarrow> r | None \<Rightarrow> ch) text"

text \<open>
  What the program takes from its platform and its data files: the built-in
  \<open>String.prototype.toLowerCase\<close> (which may change the length of a string) and the three
  word lists read at start-up.
\<close>

record platform =
  toLowerCase :: "jsstring \<Rightarrow> jsstring"
  WORDS_5 :: "jsstring list"
  WORDS_6 :: "jsstring list"
  WORDS_7 :: "jsstring list"

text \<open>
  A lower-casing that agrees with the built-in one on strings of Basic Latin code units;
  used to evaluate the definitions on concrete inputs.
\<close>

definition asciiLower :: "jsstring \<Rightarrow> jsstring" where
  "asciiLower = map (\<lambda>ch. if 65 \<le> ch \<and> ch \<le> 90 then ch + 32 else ch)"

section \<open>Guess evaluator\<close>

datatype feedback = correct | present | absent

text \<open>The marker written over a consumed solution letter: the code unit of \<open>*\<close>.\<close>

definition star :: nat where
  "star = 42"

type_synonym evalstate = "feedback option list \<times> nat option list"

definition pass1_step :: "nat option list \<Rightarrow> nat \<Rightarrow> evalstate \<Rightarrow> evalstate" where
  "pass1_step guessArray i st =
     (case st of (fb, solutionArray) \<Rightarrow>
        if js_get guessArray i = js_get solutionArray i
        then (js_set fb i correct, js_set solutionArray i star)
        else (fb, solutionArray))"

definition pass2_step :: "nat option list \<Rightarrow> nat \<Rightarrow> evalstate \<Rightarrow> evalstate" where
  "pass2_step guessArray i st =
     (case st of (fb, solutionArray) \<Rightarrow>
        if js_get fb i = None
        then (case indexOf solutionArray (js_get guessArray i) of
                Some letterIndex \<Rightarrow> (js_set fb i present, js_set solutionArray letterIndex star)
              | None \<Rightarrow> (js_set fb i absent, solutionArray))
        else (fb, solutionArray))"

definition solutionArray0 :: "platform \<Rightarrow> jsstring \<Rightarrow> nat option list" where
  "solutionArray0 pf solution = map Some (toLowerCase pf (normalizeAccentedChars solution))"

definition guessArray0 :: "platform \<Rightarrow> jsstring \<Rightarrow> nat option list" where
  "guessArray0 pf guess = map Some (toLowerCase pf (normalizeAccentedChars guess))"

definition evaluateGuess :: "platform \<Rightarrow> jsstring \<Rightarrow> jsstring \<Rightarrow> feedback option list" where
  "evaluateGuess pf guess solution =
     (let solutionArray = solutionArray0 pf solution;
          guessArray = guessArray0 pf guess;
          wordLength = length solution;
          st1 = fold (pass1_step guessArray) [0..<wordLength] ([], solutionArray);
          st2 = fold (pass2_step guessArray) [0..<wordLength] st1
      in fst st2)"

subsection \<open>Counting labels and letters\<close>





definition pass1_inv :: "nat option list \<Rightarrow> nat \<Rightarrow> nat \<Rightarrow> evalstate \<Rightarrow> bool" where
  "pass1_inv G m k st = (length (fst st) \<le> k \<and> (\<forall>j<m. js_get (snd st) j \<noteq> None) \<and>
                  (\<forall>j. length G \<le> j \<and> j < m \<longrightarrow> js_get (fst st) j = None))"

definition pass2_inv :: "nat option list \<Rightarrow> nat \<Rightarrow> nat \<Rightarrow> nat \<Rightarrow> evalstate \<Rightarrow> bool" where
  "pass2_inv G m n k st = (length (fst st) \<le> n \<and> (\<forall>j<k. js_get (fst st) j \<noteq> None) \<and>
                  (\<forall>j. length G \<le> j \<and> j < m \<longrightarrow>
                       js_get (fst st) j = (if j < k then Some absent else None)))"

text \<open>A platform for evaluating the definitions on Basic Latin inputs, with no words loaded.\<close>

definition asciiPlatform :: platform where
  "asciiPlatform = \<lparr>toLowerCase = asciiLower, WORDS_5 = [], WORDS_6 = [], WORDS_7 = []\<rparr>"

text \<open>
  A lower-casing that agrees with the built-in one on strings made of Basic Latin letters,
  U+0130 (capital I with dot above, lowered to the two code units U+0069 U+0307) and the Greek
  letters alpha and sigma. A capital sigma becomes the final form U+03C2 when a letter stands
  before it and none after it, and U+03C3 otherwise (the final-sigma rule of the Unicode
  special casing, which the built-in lower-casing applies).
\<close>

definition cased :: "nat \<Rightarrow> bool" where
  "cased ch = ((65 \<le> ch \<and> ch \<le> 90) \<or> (97 \<le> ch \<and> ch \<le> 122) \<or> ch = 304 \<or>
               ch = 913 \<or> ch = 931 \<or> ch = 945 \<or> ch = 962 \<or> ch = 963)"

fun specialLower :: "bool \<Rightarrow> jsstring \<Rightarrow> jsstring" where
  "specialLower afterCased [] = []"
| "specialLower afterCased (ch # rest) =
     (if ch = 931
      then (if afterCased \<and> (case rest of [] \<Rightarrow> True | n # r \<Rightarrow> \<not> cased n) then 962 else 963)
             # specialLower True rest
      else if ch = 304 then 105 # 775 # specialLower True rest
      else if 65 \<le> ch \<and> ch \<le> 90 then (ch + 32) # specialLower True rest
      else if ch = 913 then 945 # specialLower True rest
      else ch # specialLower (cased ch) rest)"

definition specialPlatform :: platform where
  "specialPlatform = \<lparr>toLowerCase = specialLower False, WORDS_5 = [], WORDS_6 = [], WORDS_7 = []\<rparr>"

section \<open>Data model\<close>

type_synonym sid = jsstring
type_synonym rid = jsstring

text \<open>
  \<open>PlayerState\<close>. The field \<open>id\<close> of the source is \<open>pid\<close> here. An entry of \<open>guesses\<close> is the
  pair of the fields \<open>guess\<close> and \<open>feedback\<close>.
\<close>

record PlayerState =
  pid :: sid
  name :: jsstring
  guesses :: "(jsstring \<times> feedback option list) list"
  timeRemaining :: int
  isReady :: bool
  isTimedOut :: bool

record RematchRequest =
  requesterId :: sid
  requested :: bool
  accepted :: "bool option"

datatype status = waiting | playing | finished

text \<open>
  \<open>GameState\<close>. \<open>timeLimit\<close> is \<open>None\<close> for \<open>null\<close>; \<open>rematchRequest\<close> is \<open>None\<close> when the
  property is missing or \<open>undefined\<close>, which the code does not tell apart.
\<close>

record GameState =
  roomId :: rid
  players :: "PlayerState list"
  maxPlayers :: int
  wordLength :: int
  timeLimit :: "int option"
  status :: status
  solution :: jsstring
  createdAt :: int
  rematchRequest :: "RematchRequest option"

subsection \<open>Notifications\<close>

text \<open>
  The message texts of the source, by the line that sends them: 331 \<open>RoomNotFound\<close>,
  346 \<open>RoomFull\<close>, 351 \<open>GameAlreadyStarted\<close>, 413/499/546/616 \<open>GameRoomNotFound\<close>,
  418 \<open>GameNotActive\<close>, 424 \<open>WordMustHaveLetters\<close> (with the room's word length),
  430 \<open>WordNotInList\<close>, 437 \<open>PlayerNotFound\<close>, 442 \<open>NoAttemptsLeft\<close>, 447 \<open>PlayerTimedOut\<close>,
  504 \<open>GameNotFinished\<close>, 509 \<open>RematchNeedsAllPlayers\<close>, 551/621 \<open>NoRematchRequest\<close>,
  556 \<open>CannotAcceptOwnRequest\<close>, 238 \<open>TimeIsUp\<close>.
\<close>

datatype message =
    RoomNotFound | RoomFull | GameAlreadyStarted | GameRoomNotFound | GameNotActive
  | WordMustHaveLetters int | WordNotInList | PlayerNotFound | NoAttemptsLeft | PlayerTimedOut
  | GameNotFinished | RematchNeedsAllPlayers | NoRematchRequest | CannotAcceptOwnRequest
  | TimeIsUp

text \<open>Payloads as they are serialised for the client.\<close>

datatype json =
    JNull | JBool bool | JNum int | JStr jsstring | JMsg message
  | JArr "json list" | JObj "(string \<times> json) list"

text \<open>Whether a property named \<open>k\<close> occurs anywhere inside a payload.\<close>

fun has_key :: "string \<Rightarrow> json \<Rightarrow> bool" where
  "has_key k (JObj kvs) = list_ex (\<lambda>kv. fst kv = k \<or> has_key k (snd kv)) kvs"
| "has_key k (JArr xs) = list_ex (has_key k) xs"
| "has_key k JNull = False"
| "has_key k (JBool b) = False"
| "has_key k (JNum n) = False"
| "has_key k (JStr s) = False"
| "has_key k (JMsg m) = False"

datatype event =
    room_created | room_joined | player_joined | game_start | invalid_word | update_state
  | player_timeout | timer_update | game_over | rematch_requested | rematch_accepted
  | rematch_countdown | rematch_declined | player_left | error

text \<open>
  Where a notification goes: \<open>socket.emit\<close> reaches the calling socket, \<open>io.to(r)\<close> the
  members of the transport room \<open>r\<close> (every socket is alone in the room named by its own id),
  \<open>socket.to(r)\<close> the members of \<open>r\<close> other than the calling socket.
\<close>

datatype target = ToSocket sid | ToRoom jsstring | ToRoomExcept jsstring sid

datatype emission = Emit target event json

definition lit :: "string \<Rightarrow> jsstring" where
  "lit s = map of_char s"

definition feedback_json :: "feedback option \<Rightarrow> json" where
  "feedback_json f =
     (case f of None \<Rightarrow> JNull
      | Some correct \<Rightarrow> JStr (lit ''correct'')
      | Some present \<Rightarrow> JStr (lit ''present'')
      | Some absent \<Rightarrow> JStr (lit ''absent''))"

definition guess_json :: "jsstring \<times> feedback option list \<Rightarrow> json" where
  "guess_json g = JObj [(''guess'', JStr (fst g)), (''feedback'', JArr (map feedback_json (snd g)))]"

definition player_json :: "PlayerState \<Rightarrow> json" where
  "player_json p =
     JObj [(''id'', JStr (pid p)), (''name'', JStr (name p)),
           (''guesses'', JArr (map guess_json (guesses p))),
           (''timeRemaining'', JNum (timeRemaining p)),
           (''isReady'', JBool (isReady p)), (''isTimedOut'', JBool (isTimedOut p))]"

definition status_json :: "status \<Rightarrow> json" where
  "status_json st =
     (case st of waiting \<Rightarrow> JStr (lit ''waiting'') | playing \<Rightarrow> JStr (lit ''playing'')
      | finished \<Rightarrow> JStr (lit ''finished''))"

definition rematch_json :: "RematchRequest \<Rightarrow> json" where
  "rematch_json r =
     JObj ([(''requesterId'', JStr (requesterId r)), (''requested'', JBool (requested r))]
           @ (case accepted r of None \<Rightarrow> [] | Some b \<Rightarrow> [(''accepted'', JBool b)]))"

text \<open>The own properties of a \<open>GameState\<close> object, in the order of the object literal.\<close>

definition gameState_fields :: "GameState \<Rightarrow> (string \<times> json) list" where
  "gameState_fields gs =
     [(''roomId'', JStr (roomId gs)),
      (''players'', JArr (map player_json (players gs))),
      (''maxPlayers'', JNum (maxPlayers gs)),
      (''wordLength'', JNum (wordLength gs)),
      (''timeLimit'', (case timeLimit gs of None \<Rightarrow> JNull | Some t \<Rightarrow> JNum t)),
      (''status'', status_json (status gs)),
      (''solution'', JStr (solution gs)),
      (''createdAt'', JNum (createdAt gs))]
     @ (case rematchRequest gs of None \<Rightarrow> [] | Some r \<Rightarrow> [(''rematchRequest'', rematch_json r)])"

text \<open>
  \<open>const { solution, ...clientGameState } = gameState\<close>: every own property but \<open>solution\<close>.
\<close>

definition sanitizeGameStateForClient :: "GameState \<Rightarrow> json" where
  "sanitizeGameStateForClient gs = JObj (filter (\<lambda>kv. fst kv \<noteq> ''solution'') (gameState_fields gs))"

section \<open>End of game\<close>

text \<open>
  \<open>lastGuess && lastGuess.feedback.every(f => f === 'correct')\<close>, where \<open>lastGuess\<close> is
  \<open>undefined\<close> for a player without guesses.
\<close>

definition lastGuessWins :: "PlayerState \<Rightarrow> bool" where
  "lastGuessWins p =
     (case guesses p of [] \<Rightarrow> False
      | _ # _ \<Rightarrow> js_every (\<lambda>f. f = correct) (snd (last (guesses p))))"

text \<open>The result is the pair of \<open>isEnd\<close> and \<open>winnerId\<close> (\<open>None\<close> when the property is not set).\<close>

definition checkGameEnd :: "GameState \<Rightarrow> bool \<times> sid option" where
  "checkGameEnd gameState =
     (case find lastGuessWins (players gameState) of
        Some player \<Rightarrow> (True, Some (pid player))
      | None \<Rightarrow>
          if length (filter isTimedOut (players gameState)) = length (players gameState)
          then (True, None)
          else if list_all (\<lambda>p. 6 \<le> length (guesses p) \<or> isTimedOut p) (players gameState)
          then (True, None)
          else (False, None))"

section \<open>Server state\<close>

text \<open>
  Room objects live in a store and are named by their address; the registry \<open>gameRooms\<close> and
  the timer callbacks refer to them by address, as the code refers to them by reference.
  A \<open>Map\<close> of the host language is an association list in insertion order
  (\<open>map_of\<close> for \<open>get\<close>, \<open>AList.update\<close> for \<open>set\<close>, \<open>AList.delete\<close> for \<open>delete\<close>).

  A timer handle in \<open>gameTimers\<close> stands for the interval callback registered under a room
  id and a player id; it holds the address of the \<open>gameState\<close> the callback has captured.
  \<open>countdowns\<close> are the running rematch countdowns (room id, captured room, seconds left),
  \<open>cleanups\<close> the room ids whose deletion has been scheduled.
\<close>

record server =
  heap :: "nat \<Rightarrow> GameState"
  nextAddr :: nat
  gameRooms :: "(rid \<times> nat) list"
  gameTimers :: "(rid \<times> (sid \<times> nat) list) list"
  countdowns :: "(rid \<times> nat \<times> int) list"
  cleanups :: "rid list"

text \<open>
  What a handler leaves behind: it returns, or it throws (\<open>getRandomWord\<close> without a word
  list); in both cases with the state as mutated so far and the notifications sent so far.
\<close>

datatype result = Done server "emission list" | Threw server "emission list"

text \<open>What the environment supplies to a handler: the random room id, the random draw, the clock.\<close>

record env =
  newRoomId :: rid
  rand :: nat
  now :: int

fun upd_first :: "('a \<Rightarrow> bool) \<Rightarrow> ('a \<Rightarrow> 'a) \<Rightarrow> 'a list \<Rightarrow> 'a list" where
  "upd_first P f [] = []"
| "upd_first P f (x # xs) = (if P x then f x # xs else x # upd_first P f xs)"

text \<open>Mutation of a room object, and of the player that \<open>players.find(p => p.id === playerId)\<close> returns.\<close>

definition upd_room :: "nat \<Rightarrow> (GameState \<Rightarrow> GameState) \<Rightarrow> server \<Rightarrow> server" where
  "upd_room a f s = s\<lparr>heap := (heap s)(a := f (heap s a))\<rparr>"

definition upd_player :: "nat \<Rightarrow> sid \<Rightarrow> (PlayerState \<Rightarrow> PlayerState) \<Rightarrow> server \<Rightarrow> server" where
  "upd_player a playerId f s =
     upd_room a (\<lambda>gs. gs\<lparr>players := upd_first (\<lambda>p. pid p = playerId) f (players gs)\<rparr>) s"

text \<open>The value of \<open>x || -1\<close> for a time limit \<open>x\<close>: \<open>null\<close> and \<open>0\<close> are falsy.\<close>

definition or_minus1 :: "int option \<Rightarrow> int" where
  "or_minus1 x = (case x of None \<Rightarrow> - 1 | Some t \<Rightarrow> if t = 0 then - 1 else t)"

subsection \<open>Word repository, continued\<close>

definition WORD_LISTS :: "platform \<Rightarrow> int \<Rightarrow> jsstring list option" where
  "WORD_LISTS pf n =
     (if n = 5 then Some (WORDS_5 pf) else if n = 6 then Some (WORDS_6 pf)
      else if n = 7 then Some (WORDS_7 pf) else None)"

text \<open>
  \<open>getRandomWord\<close>; \<open>None\<close> stands for the exception. \<open>Math.floor(Math.random() * n)\<close> is an
  index below \<open>n\<close>, here the draw \<open>r\<close> of the environment reduced modulo \<open>n\<close>.
\<close>

definition getRandomWord :: "platform \<Rightarrow> nat \<Rightarrow> int \<Rightarrow> jsstring option" where
  "getRandomWord pf r wordLen =
     (case WORD_LISTS pf wordLen of
        Some words \<Rightarrow> if 0 < length words then Some (words ! (r mod length words)) else None
      | None \<Rightarrow> None)"

definition isValidWord :: "platform \<Rightarrow> jsstring \<Rightarrow> bool" where
  "isValidWord pf word =
     (let normalizedWord = toLowerCase pf (normalizeAccentedChars word)
      in case WORD_LISTS pf (int (length word)) of
           Some words \<Rightarrow>
             list_ex (\<lambda>w. toLowerCase pf (normalizeAccentedChars w) = normalizedWord) words
         | None \<Rightarrow> False)"

subsection \<open>Timers\<close>

definition clearPlayerTimer :: "rid \<Rightarrow> sid \<Rightarrow> server \<Rightarrow> server" where
  "clearPlayerTimer rmId playerId s =
     s\<lparr>gameTimers := AList.map_entry rmId (AList.delete playerId) (gameTimers s)\<rparr>"

definition clearAllRoomTimers :: "rid \<Rightarrow> server \<Rightarrow> server" where
  "clearAllRoomTimers rmId s = s\<lparr>gameTimers := AList.delete rmId (gameTimers s)\<rparr>"

text \<open>\<open>startPlayerTimer(roomId, playerId, gameState)\<close>, with \<open>a\<close> the address of \<open>gameState\<close>.\<close>

definition startPlayerTimer :: "rid \<Rightarrow> sid \<Rightarrow> nat \<Rightarrow> server \<Rightarrow> server" where
  "startPlayerTimer rmId playerId a s =
     (case find (\<lambda>p. pid p = playerId) (players (heap s a)) of
        None \<Rightarrow> s
      | Some player \<Rightarrow>
          if isTimedOut player then s
          else case timeLimit (heap s a) of
            None \<Rightarrow> upd_player a playerId (\<lambda>p. p\<lparr>timeRemaining := - 1\<rparr>) s
          | Some limit \<Rightarrow>
              let s1 = clearPlayerTimer rmId playerId s;
                  s2 = (if map_of (gameTimers s1) rmId = None
                        then s1\<lparr>gameTimers := AList.update rmId [] (gameTimers s1)\<rparr>
                        else s1);
                  s3 = upd_player a playerId (\<lambda>p. p\<lparr>timeRemaining := limit\<rparr>) s2
              in s3\<lparr>gameTimers :=
                      AList.map_entry rmId (AList.update playerId a) (gameTimers s3)\<rparr>)"

text \<open>\<open>gameState.players.forEach(player => startPlayerTimer(roomId, player.id, gameState))\<close>\<close>

definition startAllTimers :: "rid \<Rightarrow> nat \<Rightarrow> server \<Rightarrow> server" where
  "startAllTimers rmId a s =
     fold (\<lambda>playerId. startPlayerTimer rmId playerId a) (map pid (players (heap s a))) s"

definition state_payload :: "GameState \<Rightarrow> json" where
  "state_payload gs = JObj [(''gameState'', sanitizeGameStateForClient gs)]"

text \<open>\<open>winnerId: gameEnd.winnerId || null\<close>: an absent or empty winner id gives \<open>null\<close>.\<close>

definition game_over_payload :: "sid option \<Rightarrow> GameState \<Rightarrow> json" where
  "game_over_payload winnerId gs =
     JObj [(''winnerId'', (case winnerId of None \<Rightarrow> JNull
                           | Some w \<Rightarrow> if w = [] then JNull else JStr w)),
           (''solution'', JStr (solution gs)),
           (''gameState'', sanitizeGameStateForClient gs)]"

text \<open>
  The common tail of \<open>handlePlayerTimeout\<close> and of the \<open>make_guess\<close> handler: the end-of-game
  check with its notifications.
\<close>

definition finishOrUpdate :: "rid \<Rightarrow> nat \<Rightarrow> server \<Rightarrow> server \<times> emission list" where
  "finishOrUpdate rmId a s =
     (let gameEnd = checkGameEnd (heap s a) in
      if fst gameEnd
      then let s1 = upd_room a (\<lambda>gs. gs\<lparr>status := finished\<rparr>) s;
               s2 = clearAllRoomTimers rmId s1
           in (s2\<lparr>cleanups := cleanups s2 @ [rmId]\<rparr>,
               [Emit (ToRoom rmId) game_over (game_over_payload (snd gameEnd) (heap s2 a))])
      else (s, [Emit (ToRoom rmId) update_state (state_payload (heap s a))]))"

definition handlePlayerTimeout :: "rid \<Rightarrow> sid \<Rightarrow> nat \<Rightarrow> server \<Rightarrow> server \<times> emission list" where
  "handlePlayerTimeout rmId playerId a s =
     (case find (\<lambda>p. pid p = playerId) (players (heap s a)) of
        None \<Rightarrow> (s, [])
      | Some player \<Rightarrow>
          let s1 = upd_player a playerId (\<lambda>p. p\<lparr>isTimedOut := True\<rparr>) s;
              r = finishOrUpdate rmId a s1
          in (fst r, Emit (ToRoom playerId) player_timeout (JObj [(''message'', JMsg TimeIsUp)])
                     # snd r))"

text \<open>
  The interval callback of the timer registered under \<open>roomId\<close> and \<open>playerId\<close>. The captured
  player is the player of that id in the captured room: a player who leaves a room has
  that timer cleared.
\<close>

definition timer_tick :: "rid \<Rightarrow> sid \<Rightarrow> server \<Rightarrow> server \<times> emission list" where
  "timer_tick rmId playerId s =
     (case map_of (gameTimers s) rmId of
        None \<Rightarrow> (s, [])
      | Some roomTimers \<Rightarrow>
          (case map_of roomTimers playerId of
             None \<Rightarrow> (s, [])
           | Some a \<Rightarrow>
               let s1 = upd_player a playerId (\<lambda>p. p\<lparr>timeRemaining := timeRemaining p - 1\<rparr>) s
               in case find (\<lambda>p. pid p = playerId) (players (heap s1 a)) of
                    None \<Rightarrow> (s1, [])
                  | Some player \<Rightarrow>
                      let e = Emit (ToRoom playerId) timer_update
                                (JObj [(''playerId'', JStr playerId),
                                       (''timeRemaining'', JNum (timeRemaining player))])
                      in if timeRemaining player \<le> 0
                         then let r = handlePlayerTimeout rmId playerId a
                                        (clearPlayerTimer rmId playerId s1)
                              in (fst r, e # snd r)
                         else (s1, [e])))"

section \<open>Socket handlers\<close>

text \<open>
  In the handlers \<open>socketId\<close> is \<open>socket.id\<close>. The parameter \<open>roomId\<close> of the source is
  \<open>rmId\<close> here, the name being taken by the field of \<open>GameState\<close>.
\<close>

definition err :: "sid \<Rightarrow> message \<Rightarrow> emission" where
  "err socketId m = Emit (ToSocket socketId) error (JObj [(''message'', JMsg m)])"

definition invalid :: "sid \<Rightarrow> message \<Rightarrow> emission" where
  "invalid socketId m = Emit (ToSocket socketId) invalid_word (JObj [(''message'', JMsg m)])"

subsection \<open>create_room\<close>

datatype tlInput = TLUndefined | TLNull | TLNum int

text \<open>\<open>Math.max(2, Math.min(5, maxPlayers || 2))\<close>\<close>

definition validMaxPlayers :: "int option \<Rightarrow> int" where
  "validMaxPlayers mpIn =
     max 2 (min 5 (case mpIn of None \<Rightarrow> 2 | Some n \<Rightarrow> if n = 0 then 2 else n))"

text \<open>\<open>[5, 6, 7].includes(wordLength || 5) ? (wordLength || 5) : 5\<close>\<close>

definition validWordLength :: "int option \<Rightarrow> int" where
  "validWordLength wlIn =
     (let w = (case wlIn of None \<Rightarrow> 5 | Some n \<Rightarrow> if n = 0 then 5 else n)
      in if w \<in> set [5, 6, 7] then w else 5)"

text \<open>
  \<open>timeLimit === null ? null : [30, 35, 60, 75, 90].includes(timeLimit || 30) ? (timeLimit || 30) : 30\<close>
\<close>

definition validTimeLimit :: "tlInput \<Rightarrow> int option" where
  "validTimeLimit tlIn =
     (case tlIn of
        TLNull \<Rightarrow> None
      | TLUndefined \<Rightarrow> Some 30
      | TLNum n \<Rightarrow>
          (let t = (if n = 0 then 30 else n)
           in if t \<in> set [30, 35, 60, 75, 90] then Some t else Some 30))"

definition create_room ::
  "platform \<Rightarrow> env \<Rightarrow> sid \<Rightarrow> jsstring \<Rightarrow> int option \<Rightarrow> int option \<Rightarrow> tlInput \<Rightarrow> server \<Rightarrow> result" where
  "create_room pf e socketId playerName mpIn wlIn tlIn s =
     (let rmId = newRoomId e in
      case getRandomWord pf (rand e) (validWordLength wlIn) of
        None \<Rightarrow> Threw s []
      | Some sol \<Rightarrow>
          let gameState =
                \<lparr>roomId = rmId,
                 players = [\<lparr>pid = socketId, name = playerName, guesses = [],
                             timeRemaining = or_minus1 (validTimeLimit tlIn),
                             isReady = True, isTimedOut = False\<rparr>],
                 maxPlayers = validMaxPlayers mpIn,
                 wordLength = validWordLength wlIn,
                 timeLimit = validTimeLimit tlIn,
                 status = waiting,
                 solution = sol,
                 createdAt = now e,
                 rematchRequest = None\<rparr>;
              a = nextAddr s
          in Done (s\<lparr>heap := (heap s)(a := gameState), nextAddr := Suc a,
                       gameRooms := AList.update rmId a (gameRooms s)\<rparr>)
                  [Emit (ToSocket socketId) room_created (JObj [(''roomId'', JStr rmId)])])"

subsection \<open>join_room\<close>

definition join_room :: "sid \<Rightarrow> rid \<Rightarrow> jsstring \<Rightarrow> server \<Rightarrow> result" where
  "join_room socketId rmId playerName s =
     (case map_of (gameRooms s) rmId of
        None \<Rightarrow> Done s [err socketId RoomNotFound]
      | Some a \<Rightarrow>
          if list_ex (\<lambda>p. pid p = socketId) (players (heap s a))
          then Done s [Emit (ToSocket socketId) room_joined (state_payload (heap s a))]
          else if maxPlayers (heap s a) \<le> int (length (players (heap s a)))
          then Done s [err socketId RoomFull]
          else if status (heap s a) \<noteq> waiting
          then Done s [err socketId GameAlreadyStarted]
          else
            let s1 = upd_room a (\<lambda>gs. gs\<lparr>players := players gs @
                       [\<lparr>pid = socketId, name = playerName, guesses = [],
                         timeRemaining = or_minus1 (timeLimit gs),
                         isReady = True, isTimedOut = False\<rparr>]\<rparr>) s;
                es = [Emit (ToSocket socketId) room_joined (state_payload (heap s1 a)),
                      Emit (ToRoomExcept rmId socketId) player_joined
                        (JObj [(''gameState'', sanitizeGameStateForClient (heap s1 a)),
                               (''newPlayerName'', JStr playerName)])]
            in if int (length (players (heap s1 a))) = maxPlayers (heap s1 a)
               then let s2 = upd_room a (\<lambda>gs. gs\<lparr>status := playing\<rparr>) s1;
                        s3 = startAllTimers rmId a s2
                    in Done s3 (es @ [Emit (ToRoom rmId) game_start (state_payload (heap s3 a))])
               else Done s1 es)"

subsection \<open>Finding the caller's room\<close>

text \<open>
  The loop over \<open>gameRooms.entries()\<close> that stops at the first room holding a player with the
  caller's id.
\<close>

definition firstRoomOf :: "sid \<Rightarrow> server \<Rightarrow> (rid \<times> nat) option" where
  "firstRoomOf socketId s =
     find (\<lambda>ra. list_ex (\<lambda>p. pid p = socketId) (players (heap s (snd ra)))) (gameRooms s)"

text \<open>\<open>if (!gameState || !userRoom)\<close>: an empty room id counts as no room.\<close>

definition findUserRoom :: "sid \<Rightarrow> server \<Rightarrow> (rid \<times> nat) option" where
  "findUserRoom socketId s =
     (case firstRoomOf socketId s of
        None \<Rightarrow> None
      | Some ra \<Rightarrow> if fst ra = [] then None else Some ra)"

subsection \<open>make_guess\<close>

definition make_guess :: "platform \<Rightarrow> sid \<Rightarrow> jsstring \<Rightarrow> server \<Rightarrow> result" where
  "make_guess pf socketId guess s =
     (case findUserRoom socketId s of
        None \<Rightarrow> Done s [err socketId GameRoomNotFound]
      | Some ra \<Rightarrow>
          let userRoom = fst ra; a = snd ra in
          if status (heap s a) \<noteq> playing
          then Done s [err socketId GameNotActive]
          else if int (length guess) \<noteq> wordLength (heap s a)
          then Done s [invalid socketId (WordMustHaveLetters (wordLength (heap s a)))]
          else if \<not> isValidWord pf guess
          then Done s [invalid socketId WordNotInList]
          else case find (\<lambda>p. pid p = socketId) (players (heap s a)) of
            None \<Rightarrow> Done s [err socketId PlayerNotFound]
          | Some player \<Rightarrow>
              if 6 \<le> length (guesses player)
              then Done s [err socketId NoAttemptsLeft]
              else if isTimedOut player
              then Done s [err socketId PlayerTimedOut]
              else
                let fb = evaluateGuess pf guess (solution (heap s a));
                    s1 = upd_player a socketId
                           (\<lambda>p. p\<lparr>guesses := guesses p @ [(toLowerCase pf guess, fb)]\<rparr>) s;
                    isCorrect = js_every (\<lambda>f. f = correct) fb;
                    s2 = (if \<not> isCorrect then startPlayerTimer userRoom socketId a s1 else s1);
                    r = finishOrUpdate userRoom a s2
                in Done (fst r) (snd r))"

subsection \<open>request_rematch\<close>

text \<open>\<open>gameState.players.find(p => p.id === socket.id)?.name || 'Rakip'\<close>\<close>

definition requesterName :: "sid \<Rightarrow> GameState \<Rightarrow> jsstring" where
  "requesterName socketId gs =
     (case find (\<lambda>p. pid p = socketId) (players gs) of
        None \<Rightarrow> lit ''Rakip''
      | Some p \<Rightarrow> if name p = [] then lit ''Rakip'' else name p)"

definition request_rematch :: "sid \<Rightarrow> server \<Rightarrow> result" where
  "request_rematch socketId s =
     (case findUserRoom socketId s of
        None \<Rightarrow> Done s [err socketId GameRoomNotFound]
      | Some ra \<Rightarrow>
          let a = snd ra in
          if status (heap s a) \<noteq> finished
          then Done s [err socketId GameNotFinished]
          else if int (length (players (heap s a))) \<noteq> maxPlayers (heap s a)
          then Done s [err socketId RematchNeedsAllPlayers]
          else
            let s1 = upd_room a (\<lambda>gs. gs\<lparr>rematchRequest :=
                       Some \<lparr>requesterId = socketId, requested = True, accepted = None\<rparr>\<rparr>) s
            in Done s1
                 (map (\<lambda>p. Emit (ToRoomExcept (pid p) socketId) rematch_requested
                              (JObj [(''requesterName'', JStr (requesterName socketId (heap s1 a)))]))
                      (filter (\<lambda>p. pid p \<noteq> socketId) (players (heap s1 a)))))"

subsection \<open>accept_rematch\<close>

text \<open>
  The handler sets \<open>accepted\<close> before it draws the new solution, so a failing draw leaves
  that mutation behind. On success it starts the countdown interval, which holds the room.
\<close>

definition accept_rematch :: "platform \<Rightarrow> env \<Rightarrow> sid \<Rightarrow> server \<Rightarrow> result" where
  "accept_rematch pf e socketId s =
     (case findUserRoom socketId s of
        None \<Rightarrow> Done s [err socketId GameRoomNotFound]
      | Some ra \<Rightarrow>
          let userRoom = fst ra; a = snd ra in
          case rematchRequest (heap s a) of
            None \<Rightarrow> Done s [err socketId NoRematchRequest]
          | Some rr \<Rightarrow>
              if \<not> requested rr
              then Done s [err socketId NoRematchRequest]
              else if requesterId rr = socketId
              then Done s [err socketId CannotAcceptOwnRequest]
              else
                let s1 = upd_room a (\<lambda>gs. gs\<lparr>rematchRequest := Some (rr\<lparr>accepted := Some True\<rparr>)\<rparr>) s
                in case getRandomWord pf (rand e) (wordLength (heap s1 a)) of
                     None \<Rightarrow> Threw s1 []
                   | Some newSolution \<Rightarrow>
                       let s2 = upd_room a (\<lambda>gs. gs\<lparr>solution := newSolution, status := playing,
                                                     createdAt := now e, rematchRequest := None\<rparr>) s1;
                           s3 = upd_room a (\<lambda>gs. gs\<lparr>players :=
                                  map (\<lambda>p. p\<lparr>guesses := [],
                                              timeRemaining := or_minus1 (timeLimit gs),
                                              isReady := True, isTimedOut := False\<rparr>)
                                      (players gs)\<rparr>) s2
                       in Done (s3\<lparr>countdowns := countdowns s3 @ [(userRoom, a, 3)]\<rparr>)
                               [Emit (ToRoom userRoom) rematch_accepted JNull])"

text \<open>
  The callback of the \<open>i\<close>-th running countdown: it announces the seconds left and, past
  zero, stops itself, starts every player's timer and announces the start.
\<close>

definition countdown_tick :: "nat \<Rightarrow> server \<Rightarrow> server \<times> emission list" where
  "countdown_tick i s =
     (if i < length (countdowns s)
      then (case countdowns s ! i of
              (userRoom, a, countdown) \<Rightarrow>
                let e = Emit (ToRoom userRoom) rematch_countdown (JObj [(''seconds'', JNum countdown)])
                in if countdown - 1 < 0
                   then let s1 = s\<lparr>countdowns := take i (countdowns s) @ drop (Suc i) (countdowns s)\<rparr>;
                            s2 = startAllTimers userRoom a s1
                        in (s2, [e, Emit (ToRoom userRoom) game_start (state_payload (heap s2 a))])
                   else (s\<lparr>countdowns := (countdowns s)[i := (userRoom, a, countdown - 1)]\<rparr>, [e]))
      else (s, []))"

subsection \<open>decline_rematch\<close>

definition decline_rematch :: "sid \<Rightarrow> server \<Rightarrow> result" where
  "decline_rematch socketId s =
     (case findUserRoom socketId s of
        None \<Rightarrow> Done s [err socketId GameRoomNotFound]
      | Some ra \<Rightarrow>
          let a = snd ra in
          case rematchRequest (heap s a) of
            None \<Rightarrow> Done s [err socketId NoRematchRequest]
          | Some rr \<Rightarrow>
              if \<not> requested rr
              then Done s [err socketId NoRematchRequest]
              else Done (upd_room a (\<lambda>gs. gs\<lparr>rematchRequest := None\<rparr>) s)
                        [Emit (ToRoomExcept (requesterId rr) socketId) rematch_declined JNull])"

subsection \<open>disconnect\<close>

text \<open>\<open>players.splice(playerIndex, 1)\<close> at the first index holding the caller's id.\<close>

fun remove_first :: "('a \<Rightarrow> bool) \<Rightarrow> 'a list \<Rightarrow> 'a list" where
  "remove_first P [] = []"
| "remove_first P (x # xs) = (if P x then xs else x # remove_first P xs)"

definition disconnect :: "sid \<Rightarrow> server \<Rightarrow> result" where
  "disconnect socketId s =
     (case firstRoomOf socketId s of
        None \<Rightarrow> Done s []
      | Some ra \<Rightarrow>
          let rmId = fst ra; a = snd ra;
              s1 = upd_room a (\<lambda>gs. gs\<lparr>players :=
                     remove_first (\<lambda>p. pid p = socketId) (players gs)\<rparr>) s
          in if length (players (heap s1 a)) = 0
             then let s2 = clearAllRoomTimers rmId s1
                  in Done (s2\<lparr>gameRooms := AList.delete rmId (gameRooms s2)\<rparr>) []
             else let s2 = clearPlayerTimer rmId socketId s1
                  in Done s2 [Emit (ToRoom rmId) player_left (state_payload (heap s2 a))])"

subsection \<open>Scheduled deletion\<close>

text \<open>The callback of the \<open>i\<close>-th scheduled deletion: \<open>gameRooms.delete(roomId)\<close>.\<close>

definition cleanup :: "nat \<Rightarrow> server \<Rightarrow> server" where
  "cleanup i s =
     (if i < length (cleanups s)
      then s\<lparr>gameRooms := AList.delete (cleanups s ! i) (gameRooms s),
              cleanups := take i (cleanups s) @ drop (Suc i) (cleanups s)\<rparr>
      else s)"

section \<open>The server as a transition system\<close>

datatype action =
    CreateRoom env sid jsstring "int option" "int option" tlInput
  | JoinRoom sid rid jsstring
  | MakeGuess sid jsstring
  | RequestRematch sid
  | AcceptRematch env sid
  | DeclineRematch sid
  | Disconnect sid
  | TimerTick rid sid
  | CountdownTick nat
  | Cleanup nat

fun step :: "platform \<Rightarrow> action \<Rightarrow> server \<Rightarrow> result" where
  "step pf (CreateRoom e socketId playerName mpIn wlIn tlIn) s =
     create_room pf e socketId playerName mpIn wlIn tlIn s"
| "step pf (JoinRoom socketId rmId playerName) s = join_room socketId rmId playerName s"
| "step pf (MakeGuess socketId guess) s = make_guess pf socketId guess s"
| "step pf (RequestRematch socketId) s = request_rematch socketId s"
| "step pf (AcceptRematch e socketId) s = accept_rematch pf e socketId s"
| "step pf (DeclineRematch socketId) s = decline_rematch socketId s"
| "step pf (Disconnect socketId) s = disconnect socketId s"
| "step pf (TimerTick rmId playerId) s =
     (let r = timer_tick rmId playerId s in Done (fst r) (snd r))"
| "step pf (CountdownTick i) s = (let r = countdown_tick i s in Done (fst r) (snd r))"
| "step pf (Cleanup i) s = Done (cleanup i s) []"

fun result_state :: "result \<Rightarrow> server" where
  "result_state (Done s es) = s"
| "result_state (Threw s es) = s"

fun result_emissions :: "result \<Rightarrow> emission list" where
  "result_emissions (Done s es) = es"
| "result_emissions (Threw s es) = es"

text \<open>The store of a server that has created no room holds this value everywhere.\<close>

definition noRoom :: GameState where
  "noRoom = \<lparr>roomId = [], players = [], maxPlayers = 0, wordLength = 0, timeLimit = None,
             status = finished, solution = [], createdAt = 0, rematchRequest = None\<rparr>"

definition init :: server where
  "init = \<lparr>heap = (\<lambda>a. noRoom), nextAddr = 0, gameRooms = [], gameTimers = [],
           countdowns = [], cleanups = []\<rparr>"

text \<open>The states the server passes through, from start-up, under any sequence of events.\<close>

inductive reach :: "platform \<Rightarrow> server \<Rightarrow> bool" for pf :: platform where
  reach_init: "reach pf init"
| reach_step: "reach pf s \<Longrightarrow> reach pf (result_state (step pf act s))"

text \<open>A platform with a few words of each length, for evaluating the handlers.\<close>

definition demoPlatform :: platform where
  "demoPlatform =
     \<lparr>toLowerCase = asciiLower,
      WORDS_5 = [lit ''kapak'', lit ''kabak''],
      WORDS_6 = [lit ''kapaks''],
      WORDS_7 = [lit ''kapaklar'']\<rparr>"

definition demoEnv :: env where
  "demoEnv = \<lparr>newRoomId = lit ''R1'', rand = 0, now = 0\<rparr>"

text \<open>Running a sequence of events.\<close>

definition run :: "platform \<Rightarrow> action list \<Rightarrow> server \<Rightarrow> server" where
  "run pf acts s = fold (\<lambda>act st. result_state (step pf act st)) acts s"

text \<open>
  Ann creates a room for two, Bob joins, and Ann spends her six guesses on a wrong word; then
  Bob finds the solution.
\<close>

definition sixGuessState :: server where
  "sixGuessState =
     run demoPlatform
       ([CreateRoom demoEnv (lit ''A'') (lit ''ann'') None None TLUndefined,
         JoinRoom (lit ''B'') (lit ''R1'') (lit ''bob'')]
        @ replicate 6 (MakeGuess (lit ''A'') (lit ''kabak'')))
       init"

definition exhaustedState :: server where
  "exhaustedState = run demoPlatform [MakeGuess (lit ''B'') (lit ''kapak'')] sixGuessState"

text \<open>Ann alone in her new room; and the finished game after Ann has asked for a rematch.\<close>

definition createdState :: server where
  "createdState =
     run demoPlatform [CreateRoom demoEnv (lit ''A'') (lit ''ann'') None None TLUndefined] init"

definition rematchState :: server where
  "rematchState = run demoPlatform [RequestRematch (lit ''A'')] exhaustedState"

text \<open>Ann and Bob at the start of their game; and Ann left alone in it after Bob has gone.\<close>

definition playingState :: server where
  "playingState =
     run demoPlatform
       [CreateRoom demoEnv (lit ''A'') (lit ''ann'') None None TLUndefined,
        JoinRoom (lit ''B'') (lit ''R1'') (lit ''bob'')]
       init"

definition aloneState :: server where
  "aloneState = run demoPlatform [Disconnect (lit ''B'')] playingState"

text \<open>Ann alone in a new room for three players without time limit.\<close>

definition bigRoomState :: server where
  "bigRoomState =
     run demoPlatform [CreateRoom demoEnv (lit ''A'') (lit ''ann'') (Some 3) None TLNull] init"

text \<open>
  Nothing restricts a socket to one room. Carl opens a room for two under the id \<open>R0\<close>; then
  Ann and Bob play in the room \<open>R1\<close> as above and Ann spends her six guesses there.
\<close>

definition earlierEnv :: env where
  "earlierEnv = \<lparr>newRoomId = lit ''R0'', rand = 0, now = 0\<rparr>"

definition twoRoomsBase :: server where
  "twoRoomsBase =
     run demoPlatform
       ([CreateRoom earlierEnv (lit ''C'') (lit ''carl'') None None TLUndefined,
         CreateRoom demoEnv (lit ''A'') (lit ''ann'') None None TLUndefined,
         JoinRoom (lit ''B'') (lit ''R1'') (lit ''bob'')]
        @ replicate 6 (MakeGuess (lit ''A'') (lit ''kabak'')))
       init"

text \<open>Ann then also joins Carl's room, which starts a game there.\<close>

definition guessRooms :: server where
  "guessRooms = run demoPlatform [JoinRoom (lit ''A'') (lit ''R0'') (lit ''ann'')] twoRoomsBase"

text \<open>
  Or else Bob finds the solution in \<open>R1\<close>, then also joins Carl's room, and Ann asks for a
  rematch in \<open>R1\<close>.
\<close>

definition twoRooms :: server where
  "twoRooms =
     run demoPlatform
       [MakeGuess (lit ''B'') (lit ''kapak''),
        JoinRoom (lit ''B'') (lit ''R0'') (lit ''bob''),
        RequestRematch (lit ''A'')]
       twoRoomsBase"

text \<open>An environment whose random draw selects the second word of a list.\<close>

definition secondDrawEnv :: env where
  "secondDrawEnv = \<lparr>newRoomId = lit ''R2'', rand = 1, now = 9\<rparr>"

section \<open>Invariants of the reachable states\<close>

text \<open>
  What holds of every room object: player ids are distinct; unless the game is finished
  no player's last guess is all \<open>correct\<close>; no history is longer than six; and while the room
  is \<open>waiting\<close> nobody is timed out, nobody has guessed and the room is not full.
\<close>

definition room_ok :: "GameState \<Rightarrow> bool" where
  "room_ok gs =
     (distinct (map pid (players gs)) \<and>
      (status gs \<noteq> finished \<longrightarrow> (\<forall>p \<in> set (players gs). \<not> lastGuessWins p)) \<and>
      (\<forall>p \<in> set (players gs). length (guesses p) \<le> 6) \<and>
      (status gs = waiting \<longrightarrow>
         (\<forall>p \<in> set (players gs). \<not> isTimedOut p \<and> guesses p = []) \<and>
         int (length (players gs)) < maxPlayers gs))"

text \<open>The rooms that a timer callback or a countdown callback has captured.\<close>

definition timer_addrs :: "server \<Rightarrow> nat set" where
  "timer_addrs s = {a. \<exists>rm \<in> set (gameTimers s). \<exists>pa \<in> set (snd rm). snd pa = a}"

definition countdown_addrs :: "server \<Rightarrow> nat set" where
  "countdown_addrs s = {a. \<exists>c \<in> set (countdowns s). fst (snd c) = a}"

text \<open>The rooms that have been created and have left the \<open>waiting\<close> status.\<close>

definition started :: "server \<Rightarrow> nat set" where
  "started s = {a. a < nextAddr s \<and> status (heap s a) \<noteq> waiting}"

definition has_words :: "platform \<Rightarrow> GameState \<Rightarrow> bool" where
  "has_words pf gs = (\<exists>ws. WORD_LISTS pf (wordLength gs) = Some ws \<and> ws \<noteq> [])"

definition inv :: "platform \<Rightarrow> server \<Rightarrow> bool" where
  "inv pf s =
     ((\<forall>a. room_ok (heap s a)) \<and>
      (\<forall>a. nextAddr s \<le> a \<longrightarrow> heap s a = noRoom) \<and>
      (\<forall>a. a < nextAddr s \<longrightarrow> has_words pf (heap s a)) \<and>
      (\<forall>ra \<in> set (gameRooms s). snd ra < nextAddr s \<and> players (heap s (snd ra)) \<noteq> []) \<and>
      distinct (map snd (gameRooms s)) \<and>
      timer_addrs s \<subseteq> started s \<and>
      countdown_addrs s \<subseteq> started s)"

text \<open>A notification that reports a failure to the caller.\<close>

fun is_error :: "emission \<Rightarrow> bool" where
  "is_error (Emit t ev p) = (ev = error \<or> ev = invalid_word)"

fun emission_event :: "emission \<Rightarrow> event" where
  "emission_event (Emit t ev p) = ev"

fun emission_payload :: "emission \<Rightarrow> json" where
  "emission_payload (Emit t ev p) = p"

text \<open>
  \<open>retimed a s s'\<close>: from \<open>s\<close> to \<open>s'\<close> only timers were started for room \<open>a\<close>, which changes
  the timer table and the remaining time of players of \<open>a\<close>.
\<close>

definition retimed :: "nat \<Rightarrow> server \<Rightarrow> server \<Rightarrow> bool" where
  "retimed a s s' =
     ((\<exists>ps'. heap s' = (heap s)(a := (heap s a)\<lparr>players := ps'\<rparr>) \<and>
             map pid ps' = map pid (players (heap s a)) \<and>
             map guesses ps' = map guesses (players (heap s a)) \<and>
             map isTimedOut ps' = map isTimedOut (players (heap s a))) \<and>
      nextAddr s' = nextAddr s \<and> gameRooms s' = gameRooms s \<and>
      countdowns s' = countdowns s \<and> cleanups s' = cleanups s \<and>
      timer_addrs s' \<subseteq> insert a (timer_addrs s))"


text \<open>
  A timer callback holding room \<open>a\<close> is registered under room id \<open>r\<close> and player id \<open>p\<close>; and
  \<open>armed\<close>: the players of room \<open>a\<close> with id \<open>p\<close> have the remaining time that the time limit \<open>t\<close>
  prescribes (the limit, or \<open>-1\<close> for no limit) and, under a limit, such a timer.
\<close>

definition has_timer :: "rid \<Rightarrow> sid \<Rightarrow> nat \<Rightarrow> server \<Rightarrow> bool" where
  "has_timer r p a s =
     (case map_of (gameTimers s) r of None \<Rightarrow> False | Some m \<Rightarrow> map_of m p = Some a)"

definition armed :: "rid \<Rightarrow> nat \<Rightarrow> int option \<Rightarrow> server \<Rightarrow> sid \<Rightarrow> bool" where
  "armed r a t s p =
     ((\<forall>q \<in> set (players (heap s a)). pid q = p \<longrightarrow>
          timeRemaining q = (case t of None \<Rightarrow> - 1 | Some l \<Rightarrow> l)) \<and>
      (t \<noteq> None \<longrightarrow> has_timer r p a s))"

text \<open>
  What a notification may disclose, given the state \<open>s'\<close> in which the handler ends. A
  \<open>game_over\<close> carries the end-of-game payload of a room of \<open>s'\<close>: the winner's id or \<open>null\<close>,
  the room's solution, and the sanitized projection of the room. Any other notification has no
  property named \<open>solution\<close> anywhere inside its payload, and if its payload has a property
  \<open>gameState\<close>, the value is the sanitized projection of a game state.
\<close>

definition discreet :: "server \<Rightarrow> emission \<Rightarrow> bool" where
  "discreet s' e =
     (if emission_event e = game_over
      then (\<exists>w a. emission_payload e = game_over_payload w (heap s' a))
      else \<not> has_key ''solution'' (emission_payload e) \<and>
           (\<forall>fs v. emission_payload e = JObj fs \<and> map_of fs ''gameState'' = Some v
                    \<longrightarrow> (\<exists>gs. v = sanitizeGameStateForClient gs)))"
section \<open>Properties of the guess evaluator\<close>

lemma js_get_js_set: "js_get (js_set xs i v) j = (if j = i then Some v else js_get xs j)"
  by (auto simp: js_get_def js_set_def nth_append nth_Cons')


lemma indexOf_None_arg: "indexOf xs None = None"
  by (induction xs) auto

lemma indexOf_SomeD: "indexOf xs x = Some j \<Longrightarrow> x \<noteq> None \<and> js_get xs j = x"
proof (induction xs arbitrary: j)
  case Nil then show ?case by simp
next
  case (Cons y ys)
  show ?case
  proof (cases "x \<noteq> None \<and> y = x")
    case True with Cons.prems show ?thesis by (auto simp: js_get_def)
  next
    case False
    with Cons.prems obtain j' where j': "indexOf ys x = Some j'" "j = Suc j'" by auto
    from Cons.IH[OF j'(1)] j'(2) show ?thesis by (auto simp: js_get_def)
  qed
qed

















lemma length_js_set: "length (js_set xs i v) = max (length xs) (Suc i)"
  by (auto simp: js_set_def)

lemma js_get_None_ge: "length xs \<le> i \<Longrightarrow> js_get xs i = None"
  by (simp add: js_get_def)

lemma pass1_step_P1:
  assumes "pass1_inv G m k st"
  shows "pass1_inv G m (Suc k) (pass1_step G k st)"
proof (cases st)
  case (Pair fb sol)
  show ?thesis
  proof (cases "js_get G k = js_get sol k")
    case True
    have "\<not> (length G \<le> k \<and> k < m)"
    proof
      assume "length G \<le> k \<and> k < m"
      then have "js_get G k = None" "js_get sol k \<noteq> None"
        using assms Pair by (auto simp: pass1_inv_def js_get_None_ge)
      with True show False by simp
    qed
    then show ?thesis using assms Pair True
      by (auto simp: pass1_inv_def pass1_step_def js_get_js_set length_js_set)
  next
    case False
    then show ?thesis using assms Pair by (auto simp: pass1_inv_def pass1_step_def)
  qed
qed

lemma pass1_fold_P1:
  "pass1_inv G (length xs) k (fold (pass1_step G) [0..<k] ([], map Some xs))"
proof (induction k)
  case 0
  show ?case by (simp add: pass1_inv_def js_get_def)
next
  case (Suc k)
  from pass1_step_P1[OF Suc] show ?case by simp
qed

lemma pass2_step_P2:
  assumes "pass2_inv G m n k st" "k < n"
  shows "pass2_inv G m n (Suc k) (pass2_step G k st)"
proof (cases st)
  case (Pair fb sol)
  show ?thesis
  proof (cases "js_get fb k = None")
    case fbk: True
    show ?thesis
    proof (cases "indexOf sol (js_get G k)")
      case None
      then show ?thesis using assms Pair fbk
        by (auto simp: pass2_inv_def pass2_step_def js_get_js_set length_js_set less_Suc_eq)
    next
      case (Some j)
      from indexOf_SomeD[OF Some] have "js_get G k \<noteq> None" by simp
      then have "\<not> length G \<le> k" by (auto simp: js_get_None_ge)
      then show ?thesis using assms Pair fbk Some
        by (auto simp: pass2_inv_def pass2_step_def js_get_js_set length_js_set less_Suc_eq)
    qed
  next
    case False
    then have eq: "pass2_step G k st = st" using Pair by (auto simp: pass2_step_def)
    have "\<not> (length G \<le> k \<and> k < m)" using assms(1) False Pair by (auto simp: pass2_inv_def)
    then show ?thesis using assms False Pair unfolding eq
      by (auto simp: pass2_inv_def less_Suc_eq)
  qed
qed

lemma pass2_fold_P2:
  assumes "pass2_inv G m n 0 st" "k \<le> n"
  shows "pass2_inv G m n k (fold (pass2_step G) [0..<k] st)"
  using assms(2)
proof (induction k)
  case 0
  show ?case using assms(1) by simp
next
  case (Suc k)
  then have "pass2_inv G m n k (fold (pass2_step G) [0..<k] st)" "k < n" by auto
  from pass2_step_P2[OF this] show ?case by simp
qed

lemma evaluateGuess_P2:
  "pass2_inv (guessArray0 pf guess) (length (solutionArray0 pf soln)) (length soln) (length soln)
      (fold (pass2_step (guessArray0 pf guess)) [0..<length soln]
         (fold (pass1_step (guessArray0 pf guess)) [0..<length soln] ([], solutionArray0 pf soln)))"
proof -
  let ?G = "guessArray0 pf guess"
  let ?xs = "toLowerCase pf (normalizeAccentedChars soln)"
  let ?st1 = "fold (pass1_step ?G) [0..<length soln] ([], map Some ?xs)"
  have "pass1_inv ?G (length ?xs) (length soln) ?st1" by (rule pass1_fold_P1)
  then have "pass2_inv ?G (length ?xs) (length soln) 0 ?st1" by (simp add: pass1_inv_def pass2_inv_def)
  from pass2_fold_P2[OF this order_refl] show ?thesis by (simp add: solutionArray0_def)
qed

lemma evaluateGuess_length: "length (evaluateGuess pf guess soln) = length soln"
proof -
  let ?fb = "evaluateGuess pf guess soln"
  have le: "length ?fb \<le> length soln" and def: "\<forall>j<length soln. js_get ?fb j \<noteq> None"
    using evaluateGuess_P2[of pf guess soln] by (simp_all add: pass2_inv_def evaluateGuess_def Let_def)
  have "\<not> length ?fb < length soln"
  proof
    assume "length ?fb < length soln"
    with def have "js_get ?fb (length ?fb) \<noteq> None" by blast
    then show False by (simp add: js_get_def)
  qed
  with le show ?thesis by simp
qed

lemma evaluateGuess_labelled:
  assumes "i < length soln"
  shows "\<exists>l. evaluateGuess pf guess soln ! i = Some l"
proof -
  have "js_get (evaluateGuess pf guess soln) i \<noteq> None"
    using evaluateGuess_P2[of pf guess soln] assms by (simp add: pass2_inv_def evaluateGuess_def Let_def)
  then show ?thesis using assms by (simp add: js_get_def evaluateGuess_length)
qed

lemma evaluateGuess_beyond_guess:
  assumes "length (guessArray0 pf guess) \<le> i" "i < length soln" "i < length (solutionArray0 pf soln)"
  shows "evaluateGuess pf guess soln ! i = Some absent"
proof -
  have "js_get (evaluateGuess pf guess soln) i = Some absent"
    using evaluateGuess_P2[of pf guess soln] assms by (simp add: pass2_inv_def evaluateGuess_def Let_def)
  then show ?thesis using assms by (simp add: js_get_def evaluateGuess_length)
qed

lemma pass1_step_cong: "js_get G i = js_get G' i \<Longrightarrow> pass1_step G i = pass1_step G' i"
  by (rule ext) (simp add: pass1_step_def split: prod.split cong: if_cong)

lemma pass2_step_cong: "js_get G i = js_get G' i \<Longrightarrow> pass2_step G i = pass2_step G' i"
  by (rule ext) (simp add: pass2_step_def split: prod.split cong: if_cong)

lemma take_js_get: "take n G = take n G' \<Longrightarrow> i < n \<Longrightarrow> js_get G i = js_get G' i"
proof -
  assume a: "take n G = take n G'" "i < n"
  have "js_get G i = js_get (take n G) i" using a(2) by (simp add: js_get_def)
  also have "\<dots> = js_get (take n G') i" using a(1) by simp
  also have "\<dots> = js_get G' i" using a(2) by (simp add: js_get_def)
  finally show ?thesis .
qed

lemma evaluateGuess_ignores:
  assumes "take (length soln) (guessArray0 pf g') = take (length soln) (guessArray0 pf guess)"
  shows "evaluateGuess pf g' soln = evaluateGuess pf guess soln"
proof -
  let ?n = "length soln"
  have eq: "\<And>i. i \<in> set [0..<?n] \<Longrightarrow> js_get (guessArray0 pf g') i = js_get (guessArray0 pf guess) i"
    using take_js_get[OF assms] by simp
  have 1: "fold (pass1_step (guessArray0 pf g')) [0..<?n] a = fold (pass1_step (guessArray0 pf guess)) [0..<?n] a" for a
    by (rule fold_cong) (use eq in \<open>auto intro: pass1_step_cong\<close>)
  have 2: "fold (pass2_step (guessArray0 pf g')) [0..<?n] a = fold (pass2_step (guessArray0 pf guess)) [0..<?n] a" for a
    by (rule fold_cong) (use eq in \<open>auto intro: pass2_step_cong\<close>)
  show ?thesis by (simp add: evaluateGuess_def Let_def 1 2)
qed


lemma pass1_step_length:
  "length (snd (pass1_step G k st)) \<le> max (length (snd st)) (Suc k)"
  by (cases st) (simp add: pass1_step_def length_js_set)

lemma pass1_fold_length:
  "length (snd (fold (pass1_step G) [0..<k] ([], sol0))) \<le> max (length sol0) k"
proof (induction k)
  case 0
  show ?case by simp
next
  case (Suc k)
  have "length (snd (pass1_step G k (fold (pass1_step G) [0..<k] ([], sol0))))
          \<le> max (length (snd (fold (pass1_step G) [0..<k] ([], sol0)))) (Suc k)"
    by (rule pass1_step_length)
  with Suc show ?case by simp
qed

lemma pass1_step_keep:
  assumes "js_get (fst st) i = Some l" "i \<noteq> k"
  shows "js_get (fst (pass1_step G k st)) i = Some l"
  using assms by (cases st) (simp add: pass1_step_def js_get_js_set)

lemma pass1_fold_undefined:
  assumes "length G \<le> i" "length sol0 \<le> i" "i < k"
  shows "js_get (fst (fold (pass1_step G) [0..<k] ([], sol0))) i = Some correct"
  using assms(3)
proof (induction k)
  case 0
  then show ?case by simp
next
  case (Suc k)
  let ?st = "fold (pass1_step G) [0..<k] ([], sol0)"
  show ?case
  proof (cases "i = k")
    case True
    have "length (snd ?st) \<le> max (length sol0) k" by (rule pass1_fold_length)
    then have "js_get (snd ?st) k = None" using assms(2) True by (simp add: js_get_def)
    moreover have "js_get G k = None" using assms(1) True by (simp add: js_get_def)
    ultimately have "js_get (fst (pass1_step G k ?st)) k = Some correct"
      by (cases ?st) (simp add: pass1_step_def js_get_js_set)
    then show ?thesis using True by simp
  next
    case False
    then have "i < k" using Suc.prems by simp
    from Suc.IH[OF this] have "js_get (fst ?st) i = Some correct" .
    from pass1_step_keep[OF this False] show ?thesis by simp
  qed
qed

lemma pass2_step_keep:
  assumes "js_get (fst st) i = Some l"
  shows "js_get (fst (pass2_step G k st)) i = Some l"
  using assms
  by (cases st) (auto simp: pass2_step_def js_get_js_set split: option.splits)

lemma pass2_fold_keep:
  assumes "js_get (fst st) i = Some l"
  shows "js_get (fst (fold (pass2_step G) [0..<k] st)) i = Some l"
proof (induction k)
  case 0
  show ?case using assms by simp
next
  case (Suc k)
  from pass2_step_keep[OF Suc] show ?case by simp
qed

lemma evaluateGuess_beyond_both:
  assumes "length (guessArray0 pf guess) \<le> i" "i < length soln" "length (solutionArray0 pf soln) \<le> i"
  shows "evaluateGuess pf guess soln ! i = Some correct"
proof -
  have "js_get (fst (fold (pass1_step (guessArray0 pf guess)) [0..<length soln] ([], solutionArray0 pf soln))) i
          = Some correct"
    by (rule pass1_fold_undefined[OF assms(1) assms(3) assms(2)])
  then have "js_get (evaluateGuess pf guess soln) i = Some correct"
    by (simp add: evaluateGuess_def Let_def pass2_fold_keep)
  then show ?thesis using assms(2) by (simp add: js_get_def evaluateGuess_length)
qed

lemma evaluateGuess_beyond:
  assumes "length (guessArray0 pf guess) \<le> i" "i < length soln"
  shows "evaluateGuess pf guess soln ! i
           = Some (if i < length (solutionArray0 pf soln) then absent else correct)"
proof (cases "i < length (solutionArray0 pf soln)")
  case True
  then show ?thesis using evaluateGuess_beyond_guess[OF assms True] by simp
next
  case False
  then have "length (solutionArray0 pf soln) \<le> i" by simp
  from evaluateGuess_beyond_both[OF assms this] False show ?thesis by simp
qed

subsection \<open>Duplicate letters\<close>




subsection \<open>Inputs of any lengths\<close>

text \<open>
  Claim C10, as amended. For guess and solution of any lengths the evaluator returns an array
  as long as the solution in which every position holds a label. The guess matters only
  through its normalised form (accent-normalised and lower-cased, which may be longer than the
  guess), and of that only through the first \<open>length solution\<close> letters. A position at or
  beyond the end of the normalised guess is labelled \<open>absent\<close> if it lies inside the normalised
  solution; otherwise both arrays are undefined there and the position is labelled \<open>correct\<close>.
\<close>

theorem evaluateGuess_total:
  "length (evaluateGuess pf guess soln) = length soln \<and>
   (\<forall>i<length soln. \<exists>l. evaluateGuess pf guess soln ! i = Some l) \<and>
   (\<forall>g'. take (length soln) (guessArray0 pf g') = take (length soln) (guessArray0 pf guess)
          \<longrightarrow> evaluateGuess pf g' soln = evaluateGuess pf guess soln) \<and>
   (\<forall>i. length (guessArray0 pf guess) \<le> i \<and> i < length soln
          \<longrightarrow> evaluateGuess pf guess soln ! i
                = Some (if i < length (solutionArray0 pf soln) then absent else correct))"
  using evaluateGuess_length evaluateGuess_labelled evaluateGuess_ignores evaluateGuess_beyond
  by blast

theorem evaluateGuess_total_witness:
  "length (evaluateGuess asciiPlatform [97] [97, 97, 99]) = 3 \<and>
   (\<exists>l. evaluateGuess asciiPlatform [97] [97, 97, 99] ! 2 = Some l) \<and>
   evaluateGuess asciiPlatform [97, 98, 99, 100] [97, 98] = evaluateGuess asciiPlatform [97, 98] [97, 98] \<and>
   evaluateGuess asciiPlatform [97] [97, 97, 99] ! 1 = Some absent"
proof -
  note T = evaluateGuess_total [of asciiPlatform "[97]" "[97, 97, 99]"]
  note U = evaluateGuess_total [of asciiPlatform "[97, 98]" "[97, 98]"]
  have g1: "length (guessArray0 asciiPlatform [97]) \<le> 1"
    by code_simp
  have g2: "1 < length (solutionArray0 asciiPlatform [97, 97, 99])"
    by code_simp
  have g3: "take (length [97, 98 :: nat]) (guessArray0 asciiPlatform [97, 98, 99, 100])
              = take (length [97, 98 :: nat]) (guessArray0 asciiPlatform [97, 98])"
    by code_simp
  have a: "length (evaluateGuess asciiPlatform [97] [97, 97, 99]) = 3"
    using T [THEN conjunct1] by simp
  have b: "\<exists>l. evaluateGuess asciiPlatform [97] [97, 97, 99] ! 2 = Some l"
    by (rule T [THEN conjunct2, THEN conjunct1, rule_format]) simp
  have c: "evaluateGuess asciiPlatform [97] [97, 97, 99] ! 1
             = Some (if 1 < length (solutionArray0 asciiPlatform [97, 97, 99]) then absent else correct)"
    by (rule T [THEN conjunct2, THEN conjunct2, THEN conjunct2, rule_format]) (use g1 in simp)
  have d: "evaluateGuess asciiPlatform [97, 98, 99, 100] [97, 98] = evaluateGuess asciiPlatform [97, 98] [97, 98]"
    by (rule U [THEN conjunct2, THEN conjunct2, THEN conjunct1, rule_format]) (rule g3)
  show ?thesis using a b c d g2 by simp
qed

text \<open>
  Claim C10 as stated, with lengths and letters taken from the guess as it is written, fails in
  both of its last clauses, since lower-casing may lengthen a string and depends on what
  follows a letter. The guess U+0130 \<open>s\<close> has length two and is lower-cased to the three code
  units \<open>i\<close> U+0307 \<open>s\<close>, so against the solution \<open>abs\<close> position 2, beyond the guess's
  length, is labelled \<open>correct\<close>. And against the two-letter solution alpha sigma, the
  guesses ALPHA SIGMA ALPHA and ALPHA SIGMA agree on their first two letters and are labelled
  differently: the third letter decides whether the capital sigma is lower-cased to its final
  form.
\<close>

theorem evaluateGuess_lowercase_counterexample:
  "length [304, 115 :: nat] = 2 \<and>
   evaluateGuess specialPlatform [304, 115] [97, 98, 115] = [Some absent, Some absent, Some correct] \<and>
   take (length [945, 963 :: nat]) [913, 931, 913 :: nat] = take (length [945, 963 :: nat]) [913, 931] \<and>
   evaluateGuess specialPlatform [913, 931, 913] [945, 963] = [Some correct, Some correct] \<and>
   evaluateGuess specialPlatform [913, 931] [945, 963] = [Some correct, Some absent]"
proof -
  have 1: "evaluateGuess specialPlatform [304, 115] [97, 98, 115] = [Some absent, Some absent, Some correct]"
    by code_simp
  have 2: "evaluateGuess specialPlatform [913, 931, 913] [945, 963] = [Some correct, Some correct]"
    by code_simp
  have 3: "evaluateGuess specialPlatform [913, 931] [945, 963] = [Some correct, Some absent]"
    by code_simp
  show ?thesis by (simp add: 1 2 3)
qed

section \<open>Properties of the handlers\<close>

subsection \<open>create_room\<close>

lemma validWordLength_cases: "validWordLength wlIn = 5 \<or> validWordLength wlIn = 6 \<or> validWordLength wlIn = 7"
  by (auto simp: validWordLength_def Let_def split: option.splits)

lemma getRandomWord_Some:
  assumes "WORDS_5 pf \<noteq> []" "WORDS_6 pf \<noteq> []" "WORDS_7 pf \<noteq> []"
    and "n = 5 \<or> n = 6 \<or> n = 7"
  shows "\<exists>w. getRandomWord pf r n = Some w \<and> (\<exists>ws. WORD_LISTS pf n = Some ws \<and> w \<in> set ws)"
  using assms by (auto simp: getRandomWord_def WORD_LISTS_def)

text \<open>
  Claim C8. Whatever the configuration sent with \<open>create_room\<close>, and provided the three word
  lists hold words, the handler returns having registered a new room under the generated id:
  the room is \<open>waiting\<close>, its only player is the caller, \<open>maxPlayers\<close> is the input clamped
  into 2..5 (2 when absent), \<open>wordLength\<close> is the input when it is 5, 6 or 7 and 5 otherwise,
  \<open>timeLimit\<close> is \<open>null\<close> for \<open>null\<close>, the input when it is one of 30, 35, 60, 75, 90, and 30
  otherwise. The only notification is \<open>room_created\<close>: no input is rejected.
\<close>

theorem create_room_config:
  assumes "WORDS_5 pf \<noteq> []" "WORDS_6 pf \<noteq> []" "WORDS_7 pf \<noteq> []"
  shows "\<exists>s'. create_room pf e socketId playerName mpIn wlIn tlIn s
              = Done s' [Emit (ToSocket socketId) room_created (JObj [(''roomId'', JStr (newRoomId e))])]
          \<and> map_of (gameRooms s') (newRoomId e) = Some (nextAddr s)
          \<and> status (heap s' (nextAddr s)) = waiting
          \<and> map pid (players (heap s' (nextAddr s))) = [socketId]
          \<and> maxPlayers (heap s' (nextAddr s))
               = max 2 (min 5 (case mpIn of None \<Rightarrow> 2 | Some n \<Rightarrow> n))
          \<and> wordLength (heap s' (nextAddr s))
               = (case wlIn of None \<Rightarrow> 5 | Some n \<Rightarrow> if n = 5 \<or> n = 6 \<or> n = 7 then n else 5)
          \<and> timeLimit (heap s' (nextAddr s))
               = (case tlIn of TLNull \<Rightarrow> None | TLUndefined \<Rightarrow> Some 30
                  | TLNum n \<Rightarrow> if n = 30 \<or> n = 35 \<or> n = 60 \<or> n = 75 \<or> n = 90 then Some n else Some 30)"
proof -
  obtain w where w: "getRandomWord pf (rand e) (validWordLength wlIn) = Some w"
    using getRandomWord_Some[OF assms validWordLength_cases] by blast
  have mp: "validMaxPlayers mpIn = max 2 (min 5 (case mpIn of None \<Rightarrow> 2 | Some n \<Rightarrow> n))"
    by (auto simp: validMaxPlayers_def split: option.splits)
  have wl: "validWordLength wlIn = (case wlIn of None \<Rightarrow> 5 | Some n \<Rightarrow> if n = 5 \<or> n = 6 \<or> n = 7 then n else 5)"
    by (auto simp: validWordLength_def Let_def split: option.splits)
  have tl: "validTimeLimit tlIn = (case tlIn of TLNull \<Rightarrow> None | TLUndefined \<Rightarrow> Some 30
                  | TLNum n \<Rightarrow> if n = 30 \<or> n = 35 \<or> n = 60 \<or> n = 75 \<or> n = 90 then Some n else Some 30)"
    by (auto simp: validTimeLimit_def Let_def split: tlInput.splits)
  show ?thesis
    unfolding create_room_def Let_def w option.case
    by (simp add: mp wl tl AList.update_conv' del: max_min_same)
qed

theorem create_room_config_witness:
  "\<exists>s'. create_room demoPlatform demoEnv (lit ''A'') (lit ''ann'') (Some 9) (Some 4) (TLNum 45) init
              = Done s' [Emit (ToSocket (lit ''A'')) room_created (JObj [(''roomId'', JStr (newRoomId demoEnv))])]
          \<and> status (heap s' 0) = waiting
          \<and> maxPlayers (heap s' 0) = 5 \<and> wordLength (heap s' 0) = 5 \<and> timeLimit (heap s' 0) = Some 30"
proof -
  have h: "WORDS_5 demoPlatform \<noteq> []" "WORDS_6 demoPlatform \<noteq> []" "WORDS_7 demoPlatform \<noteq> []"
    by (simp_all add: demoPlatform_def)
  have n: "nextAddr init = 0" by (simp add: init_def)
  from create_room_config [OF h, of demoEnv "lit ''A''" "lit ''ann''" "Some 9" "Some 4" "TLNum 45" init]
  show ?thesis unfolding n by auto
qed

section \<open>Lists, maps and timers\<close>

lemma upd_first_length [simp]: "length (upd_first P f ps) = length ps"
  by (induction ps) auto

lemma upd_first_map:
  assumes "\<And>p. g (f p) = g p"
  shows "map g (upd_first P f ps) = map g ps"
  by (induction ps) (auto simp: assms)

lemma upd_first_find_None: "find P ps = None \<Longrightarrow> upd_first P f ps = ps"
  by (induction ps) (auto split: if_splits)

lemma upd_first_set:
  assumes "find P ps = Some p"
  shows "set (upd_first P f ps) \<subseteq> insert (f p) (set ps)"
  using assms by (induction ps) (auto split: if_splits)

lemma upd_first_nil [simp]: "(upd_first P f ps = []) = (ps = [])"
  by (cases ps) auto

lemma find_Some_set: "find P ps = Some p \<Longrightarrow> p \<in> set ps \<and> P p"
  by (induction ps) (auto split: if_splits)

lemma find_None_iff_list_ex: "(find P ps = None) = (\<not> list_ex P ps)"
  by (induction ps) auto

lemma remove_first_set: "set (remove_first P ps) \<subseteq> set ps"
  by (induction ps) auto

lemma remove_first_distinct: "distinct (map g ps) \<Longrightarrow> distinct (map g (remove_first P ps))"
proof (induction ps)
  case Nil then show ?case by simp
next
  case (Cons p ps)
  from Cons.prems have d: "distinct (map g ps)" and n: "g p \<notin> g ` set ps" by simp_all
  show ?case
  proof (cases "P p")
    case True then show ?thesis using d by simp
  next
    case False
    have "g p \<notin> g ` set (remove_first P ps)" using n remove_first_set[of P ps] by blast
    then show ?thesis using False Cons.IH[OF d] by simp
  qed
qed

lemma remove_first_length: "length (remove_first P ps) \<le> length ps"
  by (induction ps) auto

lemma set_alist_update: "set (AList.update k v al) \<subseteq> insert (k, v) (set al)"
  by (induction al) auto

lemma set_alist_delete: "set (AList.delete k al) \<subseteq> set al"
  by (auto simp: AList.delete_eq)

lemma set_alist_map_entry:
  "set (AList.map_entry k f al) \<subseteq> set al \<union> {(k, f v) | v. (k, v) \<in> set al}"
  by (induction al) auto

lemma distinct_snd_update:
  assumes "distinct (map snd al)" "v \<notin> snd ` set al"
  shows "distinct (map snd (AList.update k v al))"
  using assms
proof (induction al)
  case Nil then show ?case by simp
next
  case (Cons p al)
  have "snd ` set (AList.update k v al) \<subseteq> insert v (snd ` set al)"
    using set_alist_update[of k v al] by force
  with Cons show ?case by auto
qed

lemma distinct_snd_delete: "distinct (map snd al) \<Longrightarrow> distinct (map snd (AList.delete k al))"
  by (simp add: AList.delete_eq distinct_map_filter)

lemma map_of_SomeD_snd: "map_of al k = Some v \<Longrightarrow> (k, v) \<in> set al"
  by (rule map_of_SomeD)

lemma timer_addrs_clearPlayerTimer: "timer_addrs (clearPlayerTimer r p s) \<subseteq> timer_addrs s"
proof
  fix a assume "a \<in> timer_addrs (clearPlayerTimer r p s)"
  then obtain rm pa where rm: "rm \<in> set (AList.map_entry r (AList.delete p) (gameTimers s))"
    and pa: "pa \<in> set (snd rm)" "snd pa = a"
    by (auto simp: timer_addrs_def clearPlayerTimer_def)
  from rm set_alist_map_entry[of r "AList.delete p" "gameTimers s"]
  consider "rm \<in> set (gameTimers s)" | v where "rm = (r, AList.delete p v)" "(r, v) \<in> set (gameTimers s)"
    by auto
  then show "a \<in> timer_addrs s"
  proof cases
    case 1 with pa show ?thesis by (auto simp: timer_addrs_def)
  next
    case 2
    with pa have "pa \<in> set v" using set_alist_delete[of p v] by auto
    with 2 pa show ?thesis by (force simp: timer_addrs_def)
  qed
qed

lemma timer_addrs_clearAllRoomTimers: "timer_addrs (clearAllRoomTimers r s) \<subseteq> timer_addrs s"
  using set_alist_delete[of r "gameTimers s"] by (auto simp: timer_addrs_def clearAllRoomTimers_def)

lemma clearPlayerTimer_fields [simp]:
  "heap (clearPlayerTimer r p s) = heap s" "nextAddr (clearPlayerTimer r p s) = nextAddr s"
  "gameRooms (clearPlayerTimer r p s) = gameRooms s" "countdowns (clearPlayerTimer r p s) = countdowns s"
  "cleanups (clearPlayerTimer r p s) = cleanups s"
  by (simp_all add: clearPlayerTimer_def)

lemma clearAllRoomTimers_fields [simp]:
  "heap (clearAllRoomTimers r s) = heap s" "nextAddr (clearAllRoomTimers r s) = nextAddr s"
  "gameRooms (clearAllRoomTimers r s) = gameRooms s" "countdowns (clearAllRoomTimers r s) = countdowns s"
  "cleanups (clearAllRoomTimers r s) = cleanups s"
  by (simp_all add: clearAllRoomTimers_def)

lemma upd_room_fields [simp]:
  "heap (upd_room a f s) = (heap s)(a := f (heap s a))" "nextAddr (upd_room a f s) = nextAddr s"
  "gameRooms (upd_room a f s) = gameRooms s" "gameTimers (upd_room a f s) = gameTimers s"
  "countdowns (upd_room a f s) = countdowns s" "cleanups (upd_room a f s) = cleanups s"
  by (simp_all add: upd_room_def)

lemma upd_player_fields [simp]:
  "nextAddr (upd_player a p f s) = nextAddr s"
  "gameRooms (upd_player a p f s) = gameRooms s" "gameTimers (upd_player a p f s) = gameTimers s"
  "countdowns (upd_player a p f s) = countdowns s" "cleanups (upd_player a p f s) = cleanups s"
  by (simp_all add: upd_player_def)

lemma upd_player_heap:
  "heap (upd_player a p f s) =
     (heap s)(a := (heap s a)\<lparr>players := upd_first (\<lambda>q. pid q = p) f (players (heap s a))\<rparr>)"
  by (simp add: upd_player_def)

lemma timer_addrs_cong: "gameTimers s' = gameTimers s \<Longrightarrow> timer_addrs s' = timer_addrs s"
  by (simp add: timer_addrs_def)

lemma countdown_addrs_cong: "countdowns s' = countdowns s \<Longrightarrow> countdown_addrs s' = countdown_addrs s"
  by (simp add: countdown_addrs_def)

section \<open>Preservation of the invariants\<close>

lemma ball_players_cong:
  assumes "map g ps' = map g ps"
  shows "(\<forall>p \<in> set ps'. Q (g p)) = (\<forall>p \<in> set ps. Q (g p))"
proof -
  have "g ` set ps' = g ` set ps" using assms by (metis set_map)
  then show ?thesis by (metis (mono_tags, lifting) image_iff)
qed

lemma room_ok_players_cong:
  assumes p: "map pid ps' = map pid (players gs)"
    and g: "map guesses ps' = map guesses (players gs)"
    and t: "map isTimedOut ps' = map isTimedOut (players gs)"
  shows "room_ok (gs\<lparr>players := ps'\<rparr>) = room_ok gs"
proof -
  define wins where "wins = (\<lambda>h :: (jsstring \<times> feedback option list) list.
      case h of [] \<Rightarrow> False | _ # _ \<Rightarrow> js_every (\<lambda>f. f = correct) (snd (last h)))"
  have w: "lastGuessWins q = wins (guesses q)" for q by (simp add: lastGuessWins_def wins_def)
  have l: "length ps' = length (players gs)" using p by (metis length_map)
  have 1: "(\<forall>q \<in> set ps'. \<not> lastGuessWins q) = (\<forall>q \<in> set (players gs). \<not> lastGuessWins q)"
    unfolding w using ball_players_cong[OF g, of "\<lambda>h. \<not> wins h"] .
  have 2: "(\<forall>q \<in> set ps'. length (guesses q) \<le> 6) = (\<forall>q \<in> set (players gs). length (guesses q) \<le> 6)"
    using ball_players_cong[OF g, of "\<lambda>h. length h \<le> 6"] .
  have 3: "(\<forall>q \<in> set ps'. guesses q = []) = (\<forall>q \<in> set (players gs). guesses q = [])"
    using ball_players_cong[OF g, of "\<lambda>h. h = []"] .
  have 4: "(\<forall>q \<in> set ps'. \<not> isTimedOut q) = (\<forall>q \<in> set (players gs). \<not> isTimedOut q)"
    using ball_players_cong[OF t, of "\<lambda>b. \<not> b"] .
  have 5: "(\<forall>q \<in> set ps'. \<not> isTimedOut q \<and> guesses q = []) = (\<forall>q \<in> set (players gs). \<not> isTimedOut q \<and> guesses q = [])"
    using 3 4 by blast
  show ?thesis unfolding room_ok_def by (simp add: p l 1 2 5)
qed

lemma retimed_refl: "retimed a s s"
proof -
  have "heap s = (heap s)(a := (heap s a)\<lparr>players := players (heap s a)\<rparr>)" by simp
  then show ?thesis unfolding retimed_def by blast
qed

lemma retimed_trans:
  assumes "retimed a s s'" "retimed a s' s''"
  shows "retimed a s s''"
proof -
  from assms(1) obtain ps' where 1: "heap s' = (heap s)(a := (heap s a)\<lparr>players := ps'\<rparr>)"
    "map pid ps' = map pid (players (heap s a))" "map guesses ps' = map guesses (players (heap s a))"
    "map isTimedOut ps' = map isTimedOut (players (heap s a))"
    and f1: "nextAddr s' = nextAddr s" "gameRooms s' = gameRooms s" "countdowns s' = countdowns s"
      "cleanups s' = cleanups s" "timer_addrs s' \<subseteq> insert a (timer_addrs s)"
    unfolding retimed_def by blast
  from assms(2) obtain ps'' where 2: "heap s'' = (heap s')(a := (heap s' a)\<lparr>players := ps''\<rparr>)"
    "map pid ps'' = map pid (players (heap s' a))" "map guesses ps'' = map guesses (players (heap s' a))"
    "map isTimedOut ps'' = map isTimedOut (players (heap s' a))"
    and f2: "nextAddr s'' = nextAddr s'" "gameRooms s'' = gameRooms s'" "countdowns s'' = countdowns s'"
      "cleanups s'' = cleanups s'" "timer_addrs s'' \<subseteq> insert a (timer_addrs s')"
    unfolding retimed_def by blast
  have pl: "players (heap s' a) = ps'" using 1(1) by simp
  have h: "heap s'' = (heap s)(a := (heap s a)\<lparr>players := ps''\<rparr>)"
    unfolding 2(1) 1(1) by simp
  have m: "map pid ps'' = map pid (players (heap s a))" "map guesses ps'' = map guesses (players (heap s a))"
    "map isTimedOut ps'' = map isTimedOut (players (heap s a))"
    using 1 2 pl by simp_all
  have t: "timer_addrs s'' \<subseteq> insert a (timer_addrs s)" using f1(5) f2(5) by blast
  have "\<exists>ps'. heap s'' = (heap s)(a := (heap s a)\<lparr>players := ps'\<rparr>) \<and>
             map pid ps' = map pid (players (heap s a)) \<and>
             map guesses ps' = map guesses (players (heap s a)) \<and>
             map isTimedOut ps' = map isTimedOut (players (heap s a))"
    using h m by blast
  then show ?thesis unfolding retimed_def using t f1(1-4) f2(1-4) by simp
qed

lemma retimed_room_ok:
  assumes "retimed a s s'"
  shows "room_ok (heap s' b) = room_ok (heap s b)"
proof -
  from assms obtain ps' where 1: "heap s' = (heap s)(a := (heap s a)\<lparr>players := ps'\<rparr>)"
    "map pid ps' = map pid (players (heap s a))" "map guesses ps' = map guesses (players (heap s a))"
    "map isTimedOut ps' = map isTimedOut (players (heap s a))"
    unfolding retimed_def by blast
  show ?thesis
  proof (cases "b = a")
    case True
    then show ?thesis using room_ok_players_cong[OF 1(2,3,4)] 1(1) by simp
  next
    case False then show ?thesis using 1(1) by simp
  qed
qed

lemma retimed_same:
  assumes "retimed a s s'"
  shows "status (heap s' b) = status (heap s b)" "wordLength (heap s' b) = wordLength (heap s b)"
    "map pid (players (heap s' b)) = map pid (players (heap s b))"
    "timeLimit (heap s' b) = timeLimit (heap s b)" "maxPlayers (heap s' b) = maxPlayers (heap s b)"
    "solution (heap s' b) = solution (heap s b)" "rematchRequest (heap s' b) = rematchRequest (heap s b)"
    "b \<noteq> a \<Longrightarrow> heap s' b = heap s b"
proof -
  from assms obtain ps' where 1: "heap s' = (heap s)(a := (heap s a)\<lparr>players := ps'\<rparr>)"
    "map pid ps' = map pid (players (heap s a))"
    unfolding retimed_def by blast
  show "status (heap s' b) = status (heap s b)" using 1 by (cases "b = a") simp_all
  show "wordLength (heap s' b) = wordLength (heap s b)" using 1 by (cases "b = a") simp_all
  show "map pid (players (heap s' b)) = map pid (players (heap s b))" using 1 by (cases "b = a") simp_all
  show "timeLimit (heap s' b) = timeLimit (heap s b)" using 1 by (cases "b = a") simp_all
  show "maxPlayers (heap s' b) = maxPlayers (heap s b)" using 1 by (cases "b = a") simp_all
  show "solution (heap s' b) = solution (heap s b)" using 1 by (cases "b = a") simp_all
  show "rematchRequest (heap s' b) = rematchRequest (heap s b)" using 1 by (cases "b = a") simp_all
  show "b \<noteq> a \<Longrightarrow> heap s' b = heap s b" using 1 by simp
qed

lemma timer_addrs_register:
  assumes "gameTimers s' = AList.map_entry r (AList.update p a) (gameTimers s1)"
    and "timer_addrs s1 \<subseteq> T"
  shows "timer_addrs s' \<subseteq> insert a T"
proof
  fix b assume "b \<in> timer_addrs s'"
  then obtain rm pa where rm: "rm \<in> set (AList.map_entry r (AList.update p a) (gameTimers s1))"
    and pa: "pa \<in> set (snd rm)" "snd pa = b"
    using assms(1) by (auto simp: timer_addrs_def)
  from rm set_alist_map_entry[of r "AList.update p a" "gameTimers s1"]
  consider "rm \<in> set (gameTimers s1)" | v where "rm = (r, AList.update p a v)" "(r, v) \<in> set (gameTimers s1)"
    by auto
  then show "b \<in> insert a T"
  proof cases
    case 1
    with pa have "b \<in> timer_addrs s1" by (auto simp: timer_addrs_def)
    with assms(2) show ?thesis by blast
  next
    case 2
    with pa have "pa = (p, a) \<or> pa \<in> set v" using set_alist_update[of p a v] by auto
    then show ?thesis
    proof
      assume "pa = (p, a)" with pa show ?thesis by simp
    next
      assume "pa \<in> set v"
      with 2 pa have "b \<in> timer_addrs s1" by (force simp: timer_addrs_def)
      with assms(2) show ?thesis by blast
    qed
  qed
qed

lemma timer_addrs_new_room:
  assumes "gameTimers s' = AList.update r [] (gameTimers s)"
  shows "timer_addrs s' \<subseteq> timer_addrs s"
proof
  fix b assume "b \<in> timer_addrs s'"
  then obtain rm pa where rm: "rm \<in> set (AList.update r [] (gameTimers s))"
    and pa: "pa \<in> set (snd rm)" "snd pa = b"
    using assms by (auto simp: timer_addrs_def)
  from rm set_alist_update[of r "[]" "gameTimers s"] have "rm = (r, []) \<or> rm \<in> set (gameTimers s)" by auto
  with pa show "b \<in> timer_addrs s" by (auto simp: timer_addrs_def)
qed

lemma retimed_upd_player:
  assumes "\<And>q. pid (f q) = pid q" "\<And>q. guesses (f q) = guesses q" "\<And>q. isTimedOut (f q) = isTimedOut q"
  shows "retimed a s (upd_player a p f s)"
proof -
  let ?ps = "upd_first (\<lambda>q. pid q = p) f (players (heap s a))"
  have "heap (upd_player a p f s) = (heap s)(a := (heap s a)\<lparr>players := ?ps\<rparr>)"
    by (rule upd_player_heap)
  moreover have "map pid ?ps = map pid (players (heap s a))" by (rule upd_first_map) (rule assms)
  moreover have "map guesses ?ps = map guesses (players (heap s a))" by (rule upd_first_map) (rule assms)
  moreover have "map isTimedOut ?ps = map isTimedOut (players (heap s a))" by (rule upd_first_map) (rule assms)
  moreover have "timer_addrs (upd_player a p f s) = timer_addrs s" by (rule timer_addrs_cong) simp
  ultimately show ?thesis unfolding retimed_def by (simp; blast)
qed

lemma retimed_timers_only:
  assumes "heap s' = heap s" "nextAddr s' = nextAddr s" "gameRooms s' = gameRooms s"
    "countdowns s' = countdowns s" "cleanups s' = cleanups s" "timer_addrs s' \<subseteq> insert a (timer_addrs s)"
  shows "retimed a s s'"
proof -
  have "heap s' = (heap s)(a := (heap s a)\<lparr>players := players (heap s a)\<rparr>)" using assms(1) by simp
  then show ?thesis unfolding retimed_def using assms(2-6) by blast
qed

lemma startPlayerTimer_retimed: "retimed a s (startPlayerTimer r p a s)"
proof (cases "find (\<lambda>q. pid q = p) (players (heap s a))")
  case None
  then show ?thesis by (simp add: startPlayerTimer_def retimed_refl)
next
  case (Some player)
  show ?thesis
  proof (cases "isTimedOut player")
    case True
    then show ?thesis using Some by (simp add: startPlayerTimer_def retimed_refl)
  next
    case False
    show ?thesis
    proof (cases "timeLimit (heap s a)")
      case None
      have "retimed a s (upd_player a p (\<lambda>q. q\<lparr>timeRemaining := - 1\<rparr>) s)"
        by (rule retimed_upd_player) simp_all
      then show ?thesis using Some False None by (simp add: startPlayerTimer_def)
    next
      case (Some limit)
      define s1 where "s1 = clearPlayerTimer r p s"
      define s2 where "s2 = (if map_of (gameTimers s1) r = None
                        then s1\<lparr>gameTimers := AList.update r [] (gameTimers s1)\<rparr> else s1)"
      define s3 where "s3 = upd_player a p (\<lambda>q. q\<lparr>timeRemaining := limit\<rparr>) s2"
      define s4 where "s4 = s3\<lparr>gameTimers := AList.map_entry r (AList.update p a) (gameTimers s3)\<rparr>"
      have e: "startPlayerTimer r p a s = s4"
        using \<open>find (\<lambda>q. pid q = p) (players (heap s a)) = Some player\<close> False Some
        by (simp add: startPlayerTimer_def s1_def s2_def s3_def s4_def Let_def)
      have t1: "timer_addrs s1 \<subseteq> timer_addrs s" unfolding s1_def by (rule timer_addrs_clearPlayerTimer)
      have t2: "timer_addrs s2 \<subseteq> timer_addrs s1"
        unfolding s2_def using timer_addrs_new_room[of "s1\<lparr>gameTimers := AList.update r [] (gameTimers s1)\<rparr>" r s1]
        by simp
      have r1: "retimed a s s1"
        by (rule retimed_timers_only) (use t1 in \<open>auto simp: s1_def\<close>)
      have r2: "retimed a s1 s2"
        by (rule retimed_timers_only) (use t2 in \<open>auto simp: s2_def\<close>)
      have r3: "retimed a s2 s3" unfolding s3_def by (rule retimed_upd_player) simp_all
      have t4: "timer_addrs s4 \<subseteq> insert a (timer_addrs s3)"
        by (rule timer_addrs_register[of s4 r p a s3]) (simp_all add: s4_def)
      have r4: "retimed a s3 s4"
        by (rule retimed_timers_only) (use t4 in \<open>auto simp: s4_def\<close>)
      show ?thesis unfolding e using r1 r2 r3 r4 retimed_trans by blast
    qed
  qed
qed

lemma fold_startPlayerTimer_retimed:
  "retimed a s (fold (\<lambda>p. startPlayerTimer r p a) ids s)"
proof (induction ids arbitrary: s)
  case Nil show ?case by (simp add: retimed_refl)
next
  case (Cons p ids)
  have "retimed a s (startPlayerTimer r p a s)" by (rule startPlayerTimer_retimed)
  moreover have "retimed a (startPlayerTimer r p a s) (fold (\<lambda>p. startPlayerTimer r p a) ids (startPlayerTimer r p a s))"
    by (rule Cons.IH)
  ultimately show ?case using retimed_trans by simp
qed

lemma startAllTimers_retimed: "retimed a s (startAllTimers r a s)"
  unfolding startAllTimers_def by (rule fold_startPlayerTimer_retimed)

lemma checkGameEnd_not_end:
  assumes "\<not> fst (checkGameEnd gs)"
  shows "\<forall>p \<in> set (players gs). \<not> lastGuessWins p"
proof -
  have "find lastGuessWins (players gs) = None"
    using assms by (auto simp: checkGameEnd_def split: option.splits)
  then show ?thesis by (simp add: find_None_iff)
qed

lemma finishOrUpdate_effect:
  "\<exists>gs'. heap (fst (finishOrUpdate r a s)) = (heap s)(a := gs') \<and>
         (gs' = heap s a \<or> gs' = (heap s a)\<lparr>status := finished\<rparr>) \<and>
         (status gs' \<noteq> finished \<longrightarrow> (\<forall>p \<in> set (players gs'). \<not> lastGuessWins p))"
proof (cases "fst (checkGameEnd (heap s a))")
  case True
  have "heap (fst (finishOrUpdate r a s)) = (heap s)(a := (heap s a)\<lparr>status := finished\<rparr>)"
    using True by (simp add: finishOrUpdate_def Let_def)
  moreover have "status ((heap s a)\<lparr>status := finished\<rparr>) = finished" by simp
  ultimately show ?thesis by blast
next
  case False
  have "heap (fst (finishOrUpdate r a s)) = (heap s)(a := heap s a)"
    using False by (simp add: finishOrUpdate_def Let_def)
  then show ?thesis using checkGameEnd_not_end[OF False] by blast
qed

lemma finishOrUpdate_fields:
  "nextAddr (fst (finishOrUpdate r a s)) = nextAddr s"
  "gameRooms (fst (finishOrUpdate r a s)) = gameRooms s"
  "countdowns (fst (finishOrUpdate r a s)) = countdowns s"
  by (simp_all add: finishOrUpdate_def Let_def)

lemma finishOrUpdate_timers: "timer_addrs (fst (finishOrUpdate r a s)) \<subseteq> timer_addrs s"
proof (cases "fst (checkGameEnd (heap s a))")
  case True
  have "timer_addrs (fst (finishOrUpdate r a s)) = timer_addrs (clearAllRoomTimers r (upd_room a (\<lambda>gs. gs\<lparr>status := finished\<rparr>) s))"
    using True by (simp add: finishOrUpdate_def Let_def timer_addrs_def)
  also have "\<dots> \<subseteq> timer_addrs (upd_room a (\<lambda>gs. gs\<lparr>status := finished\<rparr>) s)"
    by (rule timer_addrs_clearAllRoomTimers)
  also have "\<dots> = timer_addrs s" by (rule timer_addrs_cong) simp
  finally show ?thesis .
next
  case False
  then show ?thesis by (simp add: finishOrUpdate_def Let_def)
qed

lemma started_mono:
  assumes "nextAddr s \<le> nextAddr s'"
    and "\<And>b. b < nextAddr s \<Longrightarrow> status (heap s b) \<noteq> waiting \<Longrightarrow> status (heap s' b) \<noteq> waiting"
  shows "started s \<subseteq> started s'"
  using assms by (auto simp: started_def)

lemma inv_step:
  assumes i: "inv pf s"
    and ok: "\<And>b. room_ok (heap s' b)"
    and nx: "nextAddr s' = nextAddr s"
    and wl: "\<And>b. b < nextAddr s \<Longrightarrow> wordLength (heap s' b) = wordLength (heap s b)"
    and st: "\<And>b. b < nextAddr s \<Longrightarrow> status (heap s b) \<noteq> waiting \<Longrightarrow> status (heap s' b) \<noteq> waiting"
    and fr: "\<And>b. nextAddr s \<le> b \<Longrightarrow> heap s' b = heap s b"
    and rg: "set (gameRooms s') \<subseteq> set (gameRooms s)"
    and di: "distinct (map snd (gameRooms s'))"
    and ne: "\<And>ra. ra \<in> set (gameRooms s') \<Longrightarrow> players (heap s' (snd ra)) \<noteq> []"
    and tm: "timer_addrs s' \<subseteq> timer_addrs s \<union> started s'"
    and cd: "countdown_addrs s' \<subseteq> countdown_addrs s \<union> started s'"
  shows "inv pf s'"
proof -
  have sm: "started s \<subseteq> started s'" by (rule started_mono) (use nx st in auto)
  have ts: "timer_addrs s \<subseteq> started s" "countdown_addrs s \<subseteq> started s" using i by (simp_all add: inv_def)
  have 1: "\<forall>a. room_ok (heap s' a)" using ok by blast
  have 2: "\<forall>a. nextAddr s' \<le> a \<longrightarrow> heap s' a = noRoom" using i fr nx by (simp add: inv_def)
  have 3: "\<forall>a. a < nextAddr s' \<longrightarrow> has_words pf (heap s' a)"
    using i wl nx by (simp add: inv_def has_words_def)
  have 4: "\<forall>ra \<in> set (gameRooms s'). snd ra < nextAddr s' \<and> players (heap s' (snd ra)) \<noteq> []"
  proof
    fix ra assume a: "ra \<in> set (gameRooms s')"
    then have "ra \<in> set (gameRooms s)" using rg by blast
    then have "snd ra < nextAddr s" using i by (simp add: inv_def)
    then show "snd ra < nextAddr s' \<and> players (heap s' (snd ra)) \<noteq> []" using ne[OF a] nx by simp
  qed
  have 6: "timer_addrs s' \<subseteq> started s'" using tm ts sm by blast
  have 7: "countdown_addrs s' \<subseteq> started s'" using cd ts sm by blast
  show ?thesis unfolding inv_def using 1 2 3 4 di 6 7 by blast
qed

lemma inv_room_ok: "inv pf s \<Longrightarrow> room_ok (heap s a)"
  by (simp add: inv_def)

lemma inv_registry:
  assumes "inv pf s" "(r, a) \<in> set (gameRooms s)"
  shows "a < nextAddr s" "players (heap s a) \<noteq> []"
  using assms by (auto simp: inv_def)

lemma firstRoomOf_in:
  assumes "firstRoomOf p s = Some ra"
  shows "ra \<in> set (gameRooms s)" "list_ex (\<lambda>q. pid q = p) (players (heap s (snd ra)))"
  using find_Some_set[OF assms[unfolded firstRoomOf_def]] by simp_all

lemma findUserRoom_in:
  assumes "findUserRoom p s = Some ra"
  shows "ra \<in> set (gameRooms s)" "list_ex (\<lambda>q. pid q = p) (players (heap s (snd ra)))" "fst ra \<noteq> []"
    "firstRoomOf p s = Some ra"
  using assms firstRoomOf_in[of p s] by (auto simp: findUserRoom_def split: option.splits if_splits)

lemma room_ok_rematch [simp]: "room_ok (gs\<lparr>rematchRequest := x\<rparr>) = room_ok gs"
  by (simp add: room_ok_def)

lemma inv_cleanup: "inv pf s \<Longrightarrow> inv pf (cleanup i s)"
proof (cases "i < length (cleanups s)")
  case False then show "inv pf s \<Longrightarrow> inv pf (cleanup i s)" by (simp add: cleanup_def)
next
  case True
  assume i: "inv pf s"
  let ?s' = "cleanup i s"
  have h: "heap ?s' = heap s" "nextAddr ?s' = nextAddr s" "gameTimers ?s' = gameTimers s"
    "countdowns ?s' = countdowns s" "gameRooms ?s' = AList.delete (cleanups s ! i) (gameRooms s)"
    using True by (simp_all add: cleanup_def)
  show "inv pf ?s'"
  proof (rule inv_step[OF i])
    show "room_ok (heap ?s' b)" for b using i h by (simp add: inv_def)
    show "set (gameRooms ?s') \<subseteq> set (gameRooms s)" unfolding h by (rule set_alist_delete)
    show "distinct (map snd (gameRooms ?s'))" unfolding h using i by (simp add: inv_def distinct_snd_delete)
    show "players (heap ?s' (snd ra)) \<noteq> []" if "ra \<in> set (gameRooms ?s')" for ra
    proof -
      from that have "ra \<in> set (gameRooms s)" unfolding h using set_alist_delete by fastforce
      then show ?thesis using i h by (simp add: inv_def)
    qed
    show "timer_addrs ?s' \<subseteq> timer_addrs s \<union> started ?s'" using timer_addrs_cong[OF h(3)] by simp
    show "countdown_addrs ?s' \<subseteq> countdown_addrs s \<union> started ?s'" using countdown_addrs_cong[OF h(4)] by simp
  qed (simp_all add: h)
qed

lemma inv_room_update:
  assumes i: "inv pf s"
    and a: "a < nextAddr s"
    and h: "heap s' = (heap s)(a := gs')"
    and ok: "room_ok gs'"
    and wl: "wordLength gs' = wordLength (heap s a)"
    and st: "status (heap s a) \<noteq> waiting \<Longrightarrow> status gs' \<noteq> waiting"
    and nx: "nextAddr s' = nextAddr s"
    and rg: "set (gameRooms s') \<subseteq> set (gameRooms s)"
    and di: "distinct (map snd (gameRooms s'))"
    and ne: "a \<in> snd ` set (gameRooms s') \<Longrightarrow> players gs' \<noteq> []"
    and tm: "timer_addrs s' \<subseteq> timer_addrs s \<union> started s'"
    and cd: "countdown_addrs s' \<subseteq> countdown_addrs s \<union> started s'"
  shows "inv pf s'"
proof (rule inv_step[OF i])
  show "room_ok (heap s' b)" for b using inv_room_ok[OF i, of b] ok h by simp
  show "nextAddr s' = nextAddr s" by (rule nx)
  show "wordLength (heap s' b) = wordLength (heap s b)" for b using wl h by simp
  show "status (heap s' b) \<noteq> waiting" if "status (heap s b) \<noteq> waiting" for b using that st h by (cases "b = a") simp_all
  show "heap s' b = heap s b" if "nextAddr s \<le> b" for b using that a h by simp
  show "set (gameRooms s') \<subseteq> set (gameRooms s)" by (rule rg)
  show "distinct (map snd (gameRooms s'))" by (rule di)
  show "players (heap s' (snd ra)) \<noteq> []" if "ra \<in> set (gameRooms s')" for ra
  proof (cases "snd ra = a")
    case True
    then have "a \<in> snd ` set (gameRooms s')" using that by force
    from ne[OF this] show ?thesis using True h by simp
  next
    case False
    have "ra \<in> set (gameRooms s)" using that rg by blast
    then have "players (heap s (snd ra)) \<noteq> []" using i by (simp add: inv_def)
    then show ?thesis using False h by simp
  qed
  show "timer_addrs s' \<subseteq> timer_addrs s \<union> started s'" by (rule tm)
  show "countdown_addrs s' \<subseteq> countdown_addrs s \<union> started s'" by (rule cd)
qed

lemma inv_upd_room:
  assumes i: "inv pf s" and a: "a < nextAddr s"
    and ok: "room_ok (f (heap s a))"
    and wl: "wordLength (f (heap s a)) = wordLength (heap s a)"
    and st: "status (heap s a) \<noteq> waiting \<Longrightarrow> status (f (heap s a)) \<noteq> waiting"
    and ne: "players (heap s a) \<noteq> [] \<Longrightarrow> players (f (heap s a)) \<noteq> []"
  shows "inv pf (upd_room a f s)"
proof (rule inv_room_update[OF i a _ ok wl st])
  show "heap (upd_room a f s) = (heap s)(a := f (heap s a))" by simp
  show "distinct (map snd (gameRooms (upd_room a f s)))" using i by (simp add: inv_def)
  show "players (f (heap s a)) \<noteq> []" if "a \<in> snd ` set (gameRooms (upd_room a f s))"
  proof -
    from that obtain ra where "ra \<in> set (gameRooms s)" "snd ra = a" by auto
    then have "players (heap s a) \<noteq> []" using i by (auto simp: inv_def)
    then show ?thesis by (rule ne)
  qed
  show "timer_addrs (upd_room a f s) \<subseteq> timer_addrs s \<union> started (upd_room a f s)"
    using timer_addrs_cong[of "upd_room a f s" s] by simp
  show "countdown_addrs (upd_room a f s) \<subseteq> countdown_addrs s \<union> started (upd_room a f s)"
    using countdown_addrs_cong[of "upd_room a f s" s] by simp
qed simp_all

lemma inv_findUserRoom:
  assumes "inv pf s" "findUserRoom p s = Some ra"
  shows "snd ra < nextAddr s" "players (heap s (snd ra)) \<noteq> []"
  using assms findUserRoom_in(1)[OF assms(2)] by (auto simp: inv_def)

lemma inv_request_rematch: "inv pf s \<Longrightarrow> inv pf (result_state (request_rematch p s))"
proof -
  assume i: "inv pf s"
  show ?thesis
  proof (cases "findUserRoom p s")
    case None then show ?thesis using i by (simp add: request_rematch_def)
  next
    case (Some ra)
    note a = inv_findUserRoom[OF i Some]
    have "inv pf (upd_room (snd ra) (\<lambda>gs. gs\<lparr>rematchRequest := Some \<lparr>requesterId = p, requested = True, accepted = None\<rparr>\<rparr>) s)"
      by (rule inv_upd_room[OF i a(1)]) (simp_all add: inv_room_ok[OF i])
    then show ?thesis using i Some by (simp add: request_rematch_def Let_def)
  qed
qed

lemma inv_decline_rematch: "inv pf s \<Longrightarrow> inv pf (result_state (decline_rematch p s))"
proof -
  assume i: "inv pf s"
  show ?thesis
  proof (cases "findUserRoom p s")
    case None then show ?thesis using i by (simp add: decline_rematch_def)
  next
    case (Some ra)
    note a = inv_findUserRoom[OF i Some]
    have "inv pf (upd_room (snd ra) (\<lambda>gs. gs\<lparr>rematchRequest := None\<rparr>) s)"
      by (rule inv_upd_room[OF i a(1)]) (simp_all add: inv_room_ok[OF i])
    then show ?thesis using i Some by (simp add: decline_rematch_def Let_def split: option.splits)
  qed
qed

lemma room_ok_reset:
  assumes "room_ok gs"
  shows "room_ok (gs\<lparr>status := playing,
            players := map (\<lambda>p. p\<lparr>guesses := [], timeRemaining := t, isReady := True, isTimedOut := False\<rparr>) (players gs)\<rparr>)"
  using assms by (simp add: room_ok_def lastGuessWins_def comp_def)

lemma room_ok_other_fields [simp]:
  "room_ok (gs\<lparr>solution := x\<rparr>) = room_ok gs" "room_ok (gs\<lparr>createdAt := y\<rparr>) = room_ok gs"
  by (simp_all add: room_ok_def)

lemma inv_accept_rematch: "inv pf s \<Longrightarrow> inv pf (result_state (accept_rematch pf e p s))"
proof -
  assume i: "inv pf s"
  show ?thesis
  proof (cases "findUserRoom p s")
    case None then show ?thesis using i by (simp add: accept_rematch_def)
  next
    case (Some ra)
    note a = inv_findUserRoom[OF i Some]
    let ?a = "snd ra"
    show ?thesis
    proof (cases "rematchRequest (heap s ?a)")
      case None then show ?thesis using i Some by (simp add: accept_rematch_def Let_def)
    next
      case rr: (Some rr)
      show ?thesis
      proof (cases "requested rr \<and> requesterId rr \<noteq> p")
        case False
        then show ?thesis using i Some rr by (auto simp: accept_rematch_def Let_def)
      next
        case True
        define s1 where "s1 = upd_room ?a (\<lambda>gs. gs\<lparr>rematchRequest := Some (rr\<lparr>accepted := Some True\<rparr>)\<rparr>) s"
        have i1: "inv pf s1" unfolding s1_def
          by (rule inv_upd_room[OF i a(1)]) (simp_all add: inv_room_ok[OF i])
        show ?thesis
        proof (cases "getRandomWord pf (rand e) (wordLength (heap s1 ?a))")
          case None
          then have "result_state (accept_rematch pf e p s) = s1"
            using Some rr True by (simp add: accept_rematch_def Let_def s1_def)
          then show ?thesis using i1 by simp
        next
          case w: (Some w)
          define f where "f = (\<lambda>gs :: GameState. gs\<lparr>solution := w, status := playing, createdAt := now e, rematchRequest := None,
               players := map (\<lambda>q. q\<lparr>guesses := [], timeRemaining := or_minus1 (timeLimit gs),
                                     isReady := True, isTimedOut := False\<rparr>) (players gs)\<rparr>)"
          define s3 where "s3 = upd_room ?a f s1"
          define s4 where "s4 = s3\<lparr>countdowns := countdowns s3 @ [(fst ra, ?a, 3)]\<rparr>"
          have e4: "result_state (accept_rematch pf e p s) = s4"
            using Some rr True w
            by (simp add: accept_rematch_def Let_def s1_def s3_def s4_def f_def upd_room_def)
          have a1: "?a < nextAddr s1" using a(1) by (simp add: s1_def)
          have ok1: "room_ok (heap s1 ?a)" by (rule inv_room_ok[OF i1])
          have okf: "room_ok (f (heap s1 ?a))"
            using room_ok_reset[OF ok1, of "or_minus1 (timeLimit (heap s1 ?a))"]
            by (simp add: f_def room_ok_def)
          have i3: "inv pf s3" unfolding s3_def
            by (rule inv_upd_room[where f = f, OF i1 a1 okf]) (simp_all add: f_def)
          have st: "?a \<in> started s4" using a1 by (simp add: started_def s4_def s3_def f_def)
          show ?thesis unfolding e4
          proof (rule inv_step[OF i3])
            show "room_ok (heap s4 b)" for b using inv_room_ok[OF i3, of b] by (simp add: s4_def)
            show "distinct (map snd (gameRooms s4))" using i3 by (simp add: inv_def s4_def)
            show "players (heap s4 (snd x)) \<noteq> []" if "x \<in> set (gameRooms s4)" for x
              using that i3 by (simp add: inv_def s4_def)
            show "timer_addrs s4 \<subseteq> timer_addrs s3 \<union> started s4"
              using timer_addrs_cong[of s4 s3] by (simp add: s4_def)
            show "countdown_addrs s4 \<subseteq> countdown_addrs s3 \<union> started s4"
              using st by (auto simp: countdown_addrs_def s4_def)
          qed (simp_all add: s4_def)
        qed
      qed
    qed
  qed
qed

lemma inv_retimed:
  assumes i: "inv pf s" and r: "retimed a s s'" and a: "a \<in> started s"
  shows "inv pf s'"
proof (rule inv_step[OF i])
  have f: "nextAddr s' = nextAddr s" "gameRooms s' = gameRooms s" "countdowns s' = countdowns s"
    "timer_addrs s' \<subseteq> insert a (timer_addrs s)"
    using r by (simp_all add: retimed_def)
  have an: "a < nextAddr s" using a by (simp add: started_def)
  show "room_ok (heap s' b)" for b using retimed_room_ok[OF r] inv_room_ok[OF i] by simp
  show "nextAddr s' = nextAddr s" by (rule f)
  show "wordLength (heap s' b) = wordLength (heap s b)" for b by (rule retimed_same[OF r])
  show "status (heap s' b) \<noteq> waiting" if "status (heap s b) \<noteq> waiting" for b
    using that retimed_same(1)[OF r] by simp
  show "heap s' b = heap s b" if "nextAddr s \<le> b" for b
    using that an retimed_same(8)[OF r, of b] by simp
  show "set (gameRooms s') \<subseteq> set (gameRooms s)" using f by simp
  show "distinct (map snd (gameRooms s'))" using f i by (simp add: inv_def)
  show "players (heap s' (snd ra)) \<noteq> []" if "ra \<in> set (gameRooms s')" for ra
  proof -
    have "players (heap s (snd ra)) \<noteq> []" using that f i by (simp add: inv_def)
    moreover have "map pid (players (heap s' (snd ra))) = map pid (players (heap s (snd ra)))"
      by (rule retimed_same[OF r])
    ultimately show ?thesis by auto
  qed
  have "a \<in> started s'" using a f(1) retimed_same(1)[OF r, of a] by (simp add: started_def)
  then show "timer_addrs s' \<subseteq> timer_addrs s \<union> started s'" using f(4) by blast
  show "countdown_addrs s' \<subseteq> countdown_addrs s \<union> started s'"
    using countdown_addrs_cong[OF f(3)] by simp
qed

lemma inv_countdowns:
  assumes i: "inv pf s" and h: "heap s' = heap s" "nextAddr s' = nextAddr s" "gameRooms s' = gameRooms s"
    "gameTimers s' = gameTimers s" and c: "countdown_addrs s' \<subseteq> countdown_addrs s"
  shows "inv pf s'"
proof (rule inv_step[OF i])
  show "room_ok (heap s' b)" for b using inv_room_ok[OF i] h by simp
  show "distinct (map snd (gameRooms s'))" using h i by (simp add: inv_def)
  show "players (heap s' (snd ra)) \<noteq> []" if "ra \<in> set (gameRooms s')" for ra
    using that h i by (simp add: inv_def)
  show "timer_addrs s' \<subseteq> timer_addrs s \<union> started s'" using timer_addrs_cong[OF h(4)] by simp
  show "countdown_addrs s' \<subseteq> countdown_addrs s \<union> started s'" using c by blast
qed (simp_all add: h)

lemma inv_countdown_tick: "inv pf s \<Longrightarrow> inv pf (fst (countdown_tick i s))"
proof -
  assume i: "inv pf s"
  show ?thesis
  proof (cases "i < length (countdowns s)")
    case False then show ?thesis using i by (simp add: countdown_tick_def)
  next
    case True
    obtain r a c where rac: "countdowns s ! i = (r, a, c)" by (cases "countdowns s ! i") auto
    have mem: "(r, a, c) \<in> set (countdowns s)" using True rac nth_mem by force
    then have "a \<in> countdown_addrs s" by (force simp: countdown_addrs_def)
    then have a: "a \<in> started s" using i by (auto simp: inv_def)
    show ?thesis
    proof (cases "c - 1 < 0")
      case neg: True
      define s1 where "s1 = s\<lparr>countdowns := take i (countdowns s) @ drop (Suc i) (countdowns s)\<rparr>"
      have "set (take i (countdowns s) @ drop (Suc i) (countdowns s)) \<subseteq> set (countdowns s)"
        using set_take_subset set_drop_subset by (metis Un_least set_append)
      then have c1: "countdown_addrs s1 \<subseteq> countdown_addrs s" by (auto simp: countdown_addrs_def s1_def)
      have i1: "inv pf s1" by (rule inv_countdowns[OF i _ _ _ _ c1]) (simp_all add: s1_def)
      have a1: "a \<in> started s1" using a by (simp add: started_def s1_def)
      have "inv pf (startAllTimers r a s1)" by (rule inv_retimed[OF i1 startAllTimers_retimed a1])
      then show ?thesis using True rac neg by (simp add: countdown_tick_def Let_def s1_def)
    next
      case pos: False
      define s1 where "s1 = s\<lparr>countdowns := (countdowns s)[i := (r, a, c - 1)]\<rparr>"
      have "set ((countdowns s)[i := (r, a, c - 1)]) \<subseteq> insert (r, a, c - 1) (set (countdowns s))"
        by (rule set_update_subset_insert)
      then have c1: "countdown_addrs s1 \<subseteq> countdown_addrs s"
        using mem by (force simp: countdown_addrs_def s1_def)
      have "inv pf s1" by (rule inv_countdowns[OF i _ _ _ _ c1]) (simp_all add: s1_def)
      then show ?thesis using True rac pos by (simp add: countdown_tick_def Let_def s1_def)
    qed
  qed
qed

lemma room_ok_remove:
  assumes "room_ok gs"
  shows "room_ok (gs\<lparr>players := remove_first P (players gs)\<rparr>)"
proof -
  have s: "set (remove_first P (players gs)) \<subseteq> set (players gs)" by (rule remove_first_set)
  have d: "distinct (map pid (remove_first P (players gs)))"
    using assms by (simp add: room_ok_def remove_first_distinct)
  have l: "length (remove_first P (players gs)) \<le> length (players gs)" by (rule remove_first_length)
  show ?thesis unfolding room_ok_def using assms[unfolded room_ok_def] s d l by (simp add: subset_iff) linarith
qed

lemma distinct_snd_key:
  assumes "distinct (map snd al)" "(k, v) \<in> set al" "(k', v) \<in> set al"
  shows "k = k'"
proof -
  have "inj_on snd (set al)" using assms(1) by (simp add: distinct_map)
  from inj_onD[OF this, of "(k, v)" "(k', v)"] assms(2,3) show ?thesis by simp
qed

lemma inv_disconnect: "inv pf s \<Longrightarrow> inv pf (result_state (disconnect p s))"
proof -
  assume i: "inv pf s"
  show ?thesis
  proof (cases "firstRoomOf p s")
    case None then show ?thesis using i by (simp add: disconnect_def)
  next
    case (Some ra)
    obtain r a where ra: "ra = (r, a)" by (cases ra) auto
    have mem: "(r, a) \<in> set (gameRooms s)" using firstRoomOf_in(1)[OF Some] ra by simp
    have a: "a < nextAddr s" using inv_registry[OF i mem] by simp
    define gs' where "gs' = (heap s a)\<lparr>players := remove_first (\<lambda>q. pid q = p) (players (heap s a))\<rparr>"
    define s1 where "s1 = upd_room a (\<lambda>gs. gs\<lparr>players := remove_first (\<lambda>q. pid q = p) (players gs)\<rparr>) s"
    have h1: "heap s1 = (heap s)(a := gs')" by (simp add: s1_def gs'_def)
    have ok: "room_ok gs'" unfolding gs'_def by (rule room_ok_remove[OF inv_room_ok[OF i]])
    have di: "distinct (map snd (gameRooms s))" using i by (simp add: inv_def)
    show ?thesis
    proof (cases "players gs' = []")
      case True
      define s2 where "s2 = clearAllRoomTimers r s1"
      define s3 where "s3 = s2\<lparr>gameRooms := AList.delete r (gameRooms s2)\<rparr>"
      have e: "result_state (disconnect p s) = s3"
        using Some ra True by (simp add: disconnect_def Let_def s1_def[symmetric] s2_def s3_def gs'_def)
      have g3: "gameRooms s3 = AList.delete r (gameRooms s)" by (simp add: s3_def s2_def s1_def)
      show ?thesis unfolding e
      proof (rule inv_room_update[OF i a _ ok])
        show "heap s3 = (heap s)(a := gs')" using h1 by (simp add: s3_def s2_def)
        show "set (gameRooms s3) \<subseteq> set (gameRooms s)" unfolding g3 by (rule set_alist_delete)
        show "distinct (map snd (gameRooms s3))" unfolding g3 using di by (rule distinct_snd_delete)
        show "players gs' \<noteq> []" if "a \<in> snd ` set (gameRooms s3)"
        proof -
          from that obtain k where k: "(k, a) \<in> set (AList.delete r (gameRooms s))" unfolding g3 by force
          then have "k \<noteq> r" by (auto simp: AList.delete_eq)
          moreover have "(k, a) \<in> set (gameRooms s)" using k set_alist_delete by fastforce
          ultimately show ?thesis using distinct_snd_key[OF di mem] by blast
        qed
        have "timer_addrs s3 = timer_addrs s2" by (rule timer_addrs_cong) (simp add: s3_def)
        also have "\<dots> \<subseteq> timer_addrs s1" unfolding s2_def by (rule timer_addrs_clearAllRoomTimers)
        also have "\<dots> = timer_addrs s" by (rule timer_addrs_cong) (simp add: s1_def)
        finally show "timer_addrs s3 \<subseteq> timer_addrs s \<union> started s3" by blast
        show "countdown_addrs s3 \<subseteq> countdown_addrs s \<union> started s3"
          using countdown_addrs_cong[of s3 s] by (simp add: s3_def s2_def s1_def)
      qed (simp_all add: gs'_def s3_def s2_def s1_def)
    next
      case False
      define s2 where "s2 = clearPlayerTimer r p s1"
      have e: "result_state (disconnect p s) = s2"
        using Some ra False by (simp add: disconnect_def Let_def s1_def[symmetric] s2_def gs'_def)
      show ?thesis unfolding e
      proof (rule inv_room_update[OF i a _ ok])
        show "heap s2 = (heap s)(a := gs')" using h1 by (simp add: s2_def)
        show "distinct (map snd (gameRooms s2))" using di by (simp add: s2_def s1_def)
        show "players gs' \<noteq> []" by (rule False)
        have "timer_addrs s2 \<subseteq> timer_addrs s1" unfolding s2_def by (rule timer_addrs_clearPlayerTimer)
        also have "\<dots> = timer_addrs s" by (rule timer_addrs_cong) (simp add: s1_def)
        finally show "timer_addrs s2 \<subseteq> timer_addrs s \<union> started s2" by blast
        show "countdown_addrs s2 \<subseteq> countdown_addrs s \<union> started s2"
          using countdown_addrs_cong[of s2 s] by (simp add: s2_def s1_def)
      qed (simp_all add: gs'_def s2_def s1_def)
    qed
  qed
qed

lemma inv_finish:
  assumes i: "inv pf s" and a: "a \<in> started s"
    and h: "heap s1 = (heap s)(a := g1)"
    and g: "status g1 = status (heap s a)" "wordLength g1 = wordLength (heap s a)"
      "distinct (map pid (players g1))" "\<forall>q \<in> set (players g1). length (guesses q) \<le> 6"
      "players (heap s a) \<noteq> [] \<Longrightarrow> players g1 \<noteq> []"
    and f: "nextAddr s1 = nextAddr s" "gameRooms s1 = gameRooms s" "countdowns s1 = countdowns s"
      "timer_addrs s1 \<subseteq> insert a (timer_addrs s)"
  shows "inv pf (fst (finishOrUpdate r a s1))"
proof -
  let ?s' = "fst (finishOrUpdate r a s1)"
  from finishOrUpdate_effect[of r a s1] obtain gs' where
    e: "heap ?s' = (heap s1)(a := gs')" "gs' = heap s1 a \<or> gs' = (heap s1 a)\<lparr>status := finished\<rparr>"
      "status gs' \<noteq> finished \<longrightarrow> (\<forall>p \<in> set (players gs'). \<not> lastGuessWins p)"
    by blast
  have an: "a < nextAddr s" and sa: "status (heap s a) \<noteq> waiting" using a by (simp_all add: started_def)
  have g1: "heap s1 a = g1" using h by simp
  have pl: "players gs' = players g1" using e(2) g1 by auto
  have wl: "wordLength gs' = wordLength g1" using e(2) g1 by auto
  have st: "status gs' \<noteq> waiting" using e(2) g1 g(1) sa by auto
  have ok: "room_ok gs'" unfolding room_ok_def using e(3) pl g(3,4) st by simp
  have fx: "nextAddr ?s' = nextAddr s" "gameRooms ?s' = gameRooms s" "countdowns ?s' = countdowns s"
    using finishOrUpdate_fields[of r a s1] f by simp_all
  show ?thesis
  proof (rule inv_room_update[OF i an _ ok])
    show "heap ?s' = (heap s)(a := gs')" using e(1) h by simp
    show "wordLength gs' = wordLength (heap s a)" using wl g(2) by simp
    show "status gs' \<noteq> waiting" by (rule st)
    show "nextAddr ?s' = nextAddr s" by (rule fx)
    show "set (gameRooms ?s') \<subseteq> set (gameRooms s)" using fx by simp
    show "distinct (map snd (gameRooms ?s'))" using fx i by (simp add: inv_def)
    show "players gs' \<noteq> []" if "a \<in> snd ` set (gameRooms ?s')"
    proof -
      from that obtain ra where "ra \<in> set (gameRooms s)" "snd ra = a" unfolding fx by auto
      then have "players (heap s a) \<noteq> []" using i by (auto simp: inv_def)
      then show ?thesis using g(5) pl by simp
    qed
    have "a \<in> started ?s'" using an st e(1) fx(1) by (simp add: started_def)
    moreover have "timer_addrs ?s' \<subseteq> timer_addrs s1" by (rule finishOrUpdate_timers)
    ultimately show "timer_addrs ?s' \<subseteq> timer_addrs s \<union> started ?s'" using f(4) by blast
    show "countdown_addrs ?s' \<subseteq> countdown_addrs s \<union> started ?s'"
      using countdown_addrs_cong[OF fx(3)] by simp
  qed
qed


lemma inv_make_guess: "inv pf s \<Longrightarrow> inv pf (result_state (make_guess pf p guess s))"
proof -
  assume i: "inv pf s"
  show ?thesis
  proof (cases "findUserRoom p s")
    case None then show ?thesis using i by (simp add: make_guess_def)
  next
    case (Some ra)
    note ar = inv_findUserRoom[OF i Some]
    let ?a = "snd ra"
    show ?thesis
    proof (cases "status (heap s ?a) = playing \<and> int (length guess) = wordLength (heap s ?a) \<and> isValidWord pf guess")
      case False
      then show ?thesis using i Some by (auto simp: make_guess_def Let_def)
    next
      case c1: True
      show ?thesis
      proof (cases "find (\<lambda>q. pid q = p) (players (heap s ?a))")
        case None
        then show ?thesis using i Some c1 by (simp add: make_guess_def Let_def)
      next
        case pl: (Some player)
        show ?thesis
        proof (cases "6 \<le> length (guesses player) \<or> isTimedOut player")
          case True
          then show ?thesis using i Some c1 pl by (auto simp: make_guess_def Let_def)
        next
          case c2: False
          define fb where "fb = evaluateGuess pf guess (solution (heap s ?a))"
          define f where "f = (\<lambda>q :: PlayerState. q\<lparr>guesses := guesses q @ [(toLowerCase pf guess, fb)]\<rparr>)"
          define s1 where "s1 = upd_player ?a p f s"
          define s2 where "s2 = (if \<not> js_every (\<lambda>x. x = correct) fb then startPlayerTimer (fst ra) p ?a s1 else s1)"
          have e: "result_state (make_guess pf p guess s) = fst (finishOrUpdate (fst ra) ?a s2)"
            using Some c1 pl c2 by (simp add: make_guess_def Let_def fb_def f_def s1_def s2_def)
          let ?ps1 = "upd_first (\<lambda>q. pid q = p) f (players (heap s ?a))"
          have h1: "heap s1 = (heap s)(?a := (heap s ?a)\<lparr>players := ?ps1\<rparr>)"
            unfolding s1_def by (rule upd_player_heap)
          have r12: "retimed ?a s1 s2" unfolding s2_def by (simp add: retimed_refl startPlayerTimer_retimed)
          then obtain ps2 where h2: "heap s2 = (heap s1)(?a := (heap s1 ?a)\<lparr>players := ps2\<rparr>)"
            and m2: "map pid ps2 = map pid (players (heap s1 ?a))"
              "map guesses ps2 = map guesses (players (heap s1 ?a))"
            and f2: "nextAddr s2 = nextAddr s1" "gameRooms s2 = gameRooms s1" "countdowns s2 = countdowns s1"
              "timer_addrs s2 \<subseteq> insert ?a (timer_addrs s1)"
            unfolding retimed_def by blast
          have p1: "players (heap s1 ?a) = ?ps1" using h1 by simp
          have ok0: "room_ok (heap s ?a)" by (rule inv_room_ok[OF i])
          have d1: "map pid ?ps1 = map pid (players (heap s ?a))"
            by (rule upd_first_map) (simp add: f_def)
          have l1: "\<forall>q \<in> set ?ps1. length (guesses q) \<le> 6"
          proof
            fix q assume "q \<in> set ?ps1"
            then have "q = f player \<or> q \<in> set (players (heap s ?a))" using upd_first_set[OF pl, of f] by blast
            then show "length (guesses q) \<le> 6" using c2 ok0 by (auto simp: f_def room_ok_def)
          qed
          have l2: "\<forall>q \<in> set ps2. length (guesses q) \<le> 6"
            using ball_players_cong[OF m2(2), of "\<lambda>h. length h \<le> 6"] l1 p1 by simp
          have a: "?a \<in> started s" using ar(1) c1 by (simp add: started_def)
          show ?thesis unfolding e
          proof (rule inv_finish[OF i a])
            show "heap s2 = (heap s)(?a := (heap s ?a)\<lparr>players := ps2\<rparr>)" unfolding h2 h1 by simp
            show "distinct (map pid (players ((heap s ?a)\<lparr>players := ps2\<rparr>)))"
              using m2(1) p1 d1 ok0 by (simp add: room_ok_def)
            show "\<forall>q \<in> set (players ((heap s ?a)\<lparr>players := ps2\<rparr>)). length (guesses q) \<le> 6"
              using l2 by simp
            show "players ((heap s ?a)\<lparr>players := ps2\<rparr>) \<noteq> []" if "players (heap s ?a) \<noteq> []"
            proof -
              have "map pid ps2 = map pid (players (heap s ?a))" using m2(1) p1 d1 by simp
              then have "ps2 \<noteq> []" using that by auto
              then show ?thesis by simp
            qed
            have "timer_addrs s1 = timer_addrs s" by (rule timer_addrs_cong) (simp add: s1_def)
            then show "timer_addrs s2 \<subseteq> insert ?a (timer_addrs s)" using f2(4) by simp
          qed (simp_all add: f2 s1_def)
        qed
      qed
    qed
  qed
qed

lemma room_ok_join:
  assumes ok: "room_ok gs" and w: "status gs = waiting"
    and n: "\<not> list_ex (\<lambda>q. pid q = p) (players gs)"
    and m: "\<not> maxPlayers gs \<le> int (length (players gs))"
  shows "room_ok (gs\<lparr>players := players gs @
            [\<lparr>pid = p, name = nm, guesses = [], timeRemaining = t, isReady = True, isTimedOut = False\<rparr>],
          status := (if int (length (players gs)) + 1 = maxPlayers gs then playing else waiting)\<rparr>)"
proof -
  have np: "p \<notin> pid ` set (players gs)" using n by (auto simp: list_ex_iff)
  have g: "\<forall>q \<in> set (players gs). \<not> isTimedOut q \<and> guesses q = []"
    using ok w by (simp add: room_ok_def)
  have d: "distinct (map pid (players gs))" using ok by (simp add: room_ok_def)
  show ?thesis unfolding room_ok_def using np g d m by (auto simp: lastGuessWins_def)
qed

lemma status_update_same: "status gs = x \<Longrightarrow> gs\<lparr>status := x\<rparr> = gs"
  by (cases gs) simp

lemma inv_join_room: "inv pf s \<Longrightarrow> inv pf (result_state (join_room p r nm s))"
proof -
  assume i: "inv pf s"
  show ?thesis
  proof (cases "map_of (gameRooms s) r")
    case None then show ?thesis using i by (simp add: join_room_def)
  next
    case (Some a)
    have mem: "(r, a) \<in> set (gameRooms s)" using Some by (rule map_of_SomeD)
    note ar = inv_registry[OF i mem]
    show ?thesis
    proof (cases "\<not> list_ex (\<lambda>q. pid q = p) (players (heap s a)) \<and>
                  \<not> maxPlayers (heap s a) \<le> int (length (players (heap s a))) \<and> status (heap s a) = waiting")
      case False
      then show ?thesis using i Some by (auto simp: join_room_def Let_def)
    next
      case c: True
      define new where "new = \<lparr>pid = p, name = nm, guesses = [], timeRemaining = or_minus1 (timeLimit (heap s a)),
                         isReady = True, isTimedOut = False\<rparr>"
      define s1 where "s1 = upd_room a (\<lambda>gs. gs\<lparr>players := players gs @ [new]\<rparr>) s"
      define full where "full = (int (length (players (heap s a))) + 1 = maxPlayers (heap s a))"
      define sJ where "sJ = upd_room a (\<lambda>gs. gs\<lparr>players := players gs @ [new],
                  status := (if full then playing else waiting)\<rparr>) s"
      have okJ: "room_ok ((heap s a)\<lparr>players := players (heap s a) @ [new],
                  status := (if full then playing else waiting)\<rparr>)"
        unfolding new_def full_def using room_ok_join[OF inv_room_ok[OF i], of a p nm] c by simp
      have iJ: "inv pf sJ" unfolding sJ_def
        by (rule inv_upd_room[OF i ar(1)]) (use okJ c in simp_all)
      show ?thesis
      proof (cases full)
        case False
        have "(heap s a)\<lparr>players := players (heap s a) @ [new], status := waiting\<rparr>
                = (heap s a)\<lparr>players := players (heap s a) @ [new]\<rparr>"
          by (rule status_update_same) (use c in simp)
        then have "sJ = s1" using False by (simp add: sJ_def s1_def upd_room_def)
        moreover have "result_state (join_room p r nm s) = s1"
          using Some c False by (simp add: join_room_def Let_def s1_def new_def full_def)
        ultimately show ?thesis using iJ by simp
      next
        case True
        have e: "result_state (join_room p r nm s) = startAllTimers r a sJ"
          using Some c True
          by (simp add: join_room_def Let_def sJ_def new_def full_def upd_room_def)
        have st: "a \<in> started sJ" using ar(1) True by (simp add: started_def sJ_def)
        show ?thesis unfolding e by (rule inv_retimed[OF iJ startAllTimers_retimed st])
      qed
    qed
  qed
qed

lemma inv_clearPlayerTimer: "inv pf s \<Longrightarrow> inv pf (clearPlayerTimer r p s)"
proof -
  assume i: "inv pf s"
  show ?thesis
  proof (rule inv_step[OF i])
    show "room_ok (heap (clearPlayerTimer r p s) b)" for b using inv_room_ok[OF i] by simp
    show "distinct (map snd (gameRooms (clearPlayerTimer r p s)))" using i by (simp add: inv_def)
    show "players (heap (clearPlayerTimer r p s) (snd ra)) \<noteq> []"
      if "ra \<in> set (gameRooms (clearPlayerTimer r p s))" for ra
      using that i by (simp add: inv_def)
    show "timer_addrs (clearPlayerTimer r p s) \<subseteq> timer_addrs s \<union> started (clearPlayerTimer r p s)"
      using timer_addrs_clearPlayerTimer[of r p s] by blast
    show "countdown_addrs (clearPlayerTimer r p s) \<subseteq> countdown_addrs s \<union> started (clearPlayerTimer r p s)"
      using countdown_addrs_cong[of "clearPlayerTimer r p s" s] by simp
  qed simp_all
qed

lemma inv_handlePlayerTimeout:
  assumes i: "inv pf s" and a: "a \<in> started s"
  shows "inv pf (fst (handlePlayerTimeout r p a s))"
proof (cases "find (\<lambda>q. pid q = p) (players (heap s a))")
  case None then show ?thesis using i by (simp add: handlePlayerTimeout_def)
next
  case (Some player)
  define f where "f = (\<lambda>q :: PlayerState. q\<lparr>isTimedOut := True\<rparr>)"
  define s1 where "s1 = upd_player a p f s"
  let ?ps = "upd_first (\<lambda>q. pid q = p) f (players (heap s a))"
  have e: "fst (handlePlayerTimeout r p a s) = fst (finishOrUpdate r a s1)"
    using Some by (simp add: handlePlayerTimeout_def Let_def s1_def f_def)
  have ok: "room_ok (heap s a)" by (rule inv_room_ok[OF i])
  have mp: "map pid ?ps = map pid (players (heap s a))" by (rule upd_first_map) (simp add: f_def)
  have mg: "map guesses ?ps = map guesses (players (heap s a))" by (rule upd_first_map) (simp add: f_def)
  show ?thesis unfolding e
  proof (rule inv_finish[OF i a])
    show "heap s1 = (heap s)(a := (heap s a)\<lparr>players := ?ps\<rparr>)" unfolding s1_def by (rule upd_player_heap)
    show "distinct (map pid (players ((heap s a)\<lparr>players := ?ps\<rparr>)))" using mp ok by (simp add: room_ok_def)
    show "\<forall>q \<in> set (players ((heap s a)\<lparr>players := ?ps\<rparr>)). length (guesses q) \<le> 6"
      using ball_players_cong[OF mg, of "\<lambda>h. length h \<le> 6"] ok by (simp add: room_ok_def)
    show "timer_addrs s1 \<subseteq> insert a (timer_addrs s)"
      using timer_addrs_cong[of s1 s] by (auto simp: s1_def)
  qed (simp_all add: s1_def)
qed

lemma timer_addrs_lookup:
  assumes "map_of (gameTimers s) r = Some m" "map_of m p = Some a"
  shows "a \<in> timer_addrs s"
proof -
  have "(r, m) \<in> set (gameTimers s)" "(p, a) \<in> set m" using assms by (auto dest: map_of_SomeD)
  then show ?thesis by (force simp: timer_addrs_def)
qed

lemma inv_timer_tick: "inv pf s \<Longrightarrow> inv pf (fst (timer_tick r p s))"
proof -
  assume i: "inv pf s"
  show ?thesis
  proof (cases "map_of (gameTimers s) r")
    case None then show ?thesis using i by (simp add: timer_tick_def)
  next
    case m: (Some m)
    show ?thesis
    proof (cases "map_of m p")
      case None then show ?thesis using i m by (simp add: timer_tick_def)
    next
      case (Some a)
      have a: "a \<in> started s" using timer_addrs_lookup[OF m Some] i by (auto simp: inv_def)
      define s1 where "s1 = upd_player a p (\<lambda>q. q\<lparr>timeRemaining := timeRemaining q - 1\<rparr>) s"
      have r1: "retimed a s s1" unfolding s1_def by (rule retimed_upd_player) simp_all
      have i1: "inv pf s1" by (rule inv_retimed[OF i r1 a])
      have a1: "a \<in> started s1" using a retimed_same(1)[OF r1, of a] r1
        by (simp add: started_def retimed_def)
      show ?thesis
      proof (cases "find (\<lambda>q. pid q = p) (players (heap s1 a))")
        case None
        then show ?thesis using i1 m Some by (simp add: timer_tick_def Let_def s1_def)
      next
        case pl: (Some player)
        show ?thesis
        proof (cases "timeRemaining player \<le> 0")
          case False
          then show ?thesis using i1 m Some pl by (simp add: timer_tick_def Let_def s1_def)
        next
          case True
          have ic: "inv pf (clearPlayerTimer r p s1)" by (rule inv_clearPlayerTimer[OF i1])
          have ac: "a \<in> started (clearPlayerTimer r p s1)" using a1 by (simp add: started_def)
          have "inv pf (fst (handlePlayerTimeout r p a (clearPlayerTimer r p s1)))"
            by (rule inv_handlePlayerTimeout[OF ic ac])
          then show ?thesis using m Some pl True by (simp add: timer_tick_def Let_def s1_def)
        qed
      qed
    qed
  qed
qed

lemma room_ok_created:
  "room_ok \<lparr>roomId = r, players = [\<lparr>pid = p, name = nm, guesses = [], timeRemaining = t,
                                      isReady = True, isTimedOut = False\<rparr>],
            maxPlayers = validMaxPlayers mpIn, wordLength = w, timeLimit = l, status = waiting,
            solution = sol, createdAt = c, rematchRequest = None\<rparr>"
  by (simp add: room_ok_def lastGuessWins_def validMaxPlayers_def)

lemma room_ok_noRoom: "room_ok noRoom"
  by (simp add: room_ok_def noRoom_def)

lemma inv_init: "inv pf init"
  by (simp add: inv_def init_def room_ok_noRoom timer_addrs_def countdown_addrs_def)

lemma inv_create_room: "inv pf s \<Longrightarrow> inv pf (result_state (create_room pf e p nm mpIn wlIn tlIn s))"
proof -
  assume i: "inv pf s"
  show ?thesis
  proof (cases "getRandomWord pf (rand e) (validWordLength wlIn)")
    case None then show ?thesis using i by (simp add: create_room_def)
  next
    case (Some sol)
    define gs where "gs = \<lparr>roomId = newRoomId e, players = [\<lparr>pid = p, name = nm, guesses = [],
           timeRemaining = or_minus1 (validTimeLimit tlIn), isReady = True, isTimedOut = False\<rparr>],
           maxPlayers = validMaxPlayers mpIn, wordLength = validWordLength wlIn,
           timeLimit = validTimeLimit tlIn, status = waiting, solution = sol, createdAt = now e,
           rematchRequest = None\<rparr>"
    define n where "n = nextAddr s"
    define s' where "s' = s\<lparr>heap := (heap s)(n := gs), nextAddr := Suc n,
                       gameRooms := AList.update (newRoomId e) n (gameRooms s)\<rparr>"
    have e: "result_state (create_room pf e p nm mpIn wlIn tlIn s) = s'"
      using Some by (simp add: create_room_def Let_def gs_def s'_def n_def)
    have okg: "room_ok gs" unfolding gs_def by (rule room_ok_created)
    have hw: "has_words pf gs"
      using Some by (auto simp: has_words_def gs_def getRandomWord_def split: option.splits if_splits)
    have f: "heap s' = (heap s)(n := gs)" "nextAddr s' = Suc n" "gameTimers s' = gameTimers s"
      "countdowns s' = countdowns s" "gameRooms s' = AList.update (newRoomId e) n (gameRooms s)"
      by (simp_all add: s'_def)
    have reg: "\<forall>ra \<in> set (gameRooms s). snd ra < n \<and> players (heap s (snd ra)) \<noteq> []"
      using i by (simp add: inv_def n_def)
    have 1: "\<forall>a. room_ok (heap s' a)" using inv_room_ok[OF i] okg f by simp
    have 2: "\<forall>a. nextAddr s' \<le> a \<longrightarrow> heap s' a = noRoom" using i f by (simp add: inv_def n_def)
    have 3: "\<forall>a. a < nextAddr s' \<longrightarrow> has_words pf (heap s' a)"
      using i hw f by (auto simp: inv_def n_def less_Suc_eq)
    have 4: "\<forall>ra \<in> set (gameRooms s'). snd ra < nextAddr s' \<and> players (heap s' (snd ra)) \<noteq> []"
    proof
      fix ra assume "ra \<in> set (gameRooms s')"
      then have "ra = (newRoomId e, n) \<or> ra \<in> set (gameRooms s)"
        unfolding f using set_alist_update[of "newRoomId e" n "gameRooms s"] by blast
      then show "snd ra < nextAddr s' \<and> players (heap s' (snd ra)) \<noteq> []"
      proof
        assume "ra = (newRoomId e, n)" then show ?thesis using f by (simp add: gs_def)
      next
        assume m: "ra \<in> set (gameRooms s)"
        then have "snd ra < n" "players (heap s (snd ra)) \<noteq> []" using reg by auto
        then show ?thesis using f by simp
      qed
    qed
    have "n \<notin> snd ` set (gameRooms s)" using reg by auto
    then have 5: "distinct (map snd (gameRooms s'))"
      unfolding f using i by (simp add: inv_def distinct_snd_update)
    have sm: "started s \<subseteq> started s'" using f by (auto simp: started_def n_def)
    have 6: "timer_addrs s' \<subseteq> started s'"
      using timer_addrs_cong[OF f(3)] i sm by (auto simp: inv_def)
    have 7: "countdown_addrs s' \<subseteq> started s'"
      using countdown_addrs_cong[OF f(4)] i sm by (auto simp: inv_def)
    show ?thesis unfolding e inv_def using 1 2 3 4 5 6 7 by blast
  qed
qed

lemma inv_step_action: "inv pf s \<Longrightarrow> inv pf (result_state (step pf act s))"
proof (cases act)
  case (CreateRoom e p nm mpIn wlIn tlIn)
  then show "inv pf s \<Longrightarrow> ?thesis" by (simp add: inv_create_room)
next
  case (JoinRoom p r nm) then show "inv pf s \<Longrightarrow> ?thesis" by (simp add: inv_join_room)
next
  case (MakeGuess p g) then show "inv pf s \<Longrightarrow> ?thesis" by (simp add: inv_make_guess)
next
  case (RequestRematch p) then show "inv pf s \<Longrightarrow> ?thesis" by (simp add: inv_request_rematch)
next
  case (AcceptRematch e p) then show "inv pf s \<Longrightarrow> ?thesis" by (simp add: inv_accept_rematch)
next
  case (DeclineRematch p) then show "inv pf s \<Longrightarrow> ?thesis" by (simp add: inv_decline_rematch)
next
  case (Disconnect p) then show "inv pf s \<Longrightarrow> ?thesis" by (simp add: inv_disconnect)
next
  case (TimerTick r p) then show "inv pf s \<Longrightarrow> ?thesis" by (simp add: inv_timer_tick Let_def)
next
  case (CountdownTick i) then show "inv pf s \<Longrightarrow> ?thesis" by (simp add: inv_countdown_tick Let_def)
next
  case (Cleanup i) then show "inv pf s \<Longrightarrow> ?thesis" by (simp add: inv_cleanup)
qed

lemma reach_inv: "reach pf s \<Longrightarrow> inv pf s"
  by (induction rule: reach.induct) (simp_all add: inv_init inv_step_action)

section \<open>Claims about the handlers\<close>

lemma reach_run: "reach pf s \<Longrightarrow> reach pf (run pf acts s)"
proof (induction acts arbitrary: s)
  case Nil then show ?case by (simp add: run_def)
next
  case (Cons act acts)
  have "reach pf (result_state (step pf act s))" by (rule reach_step[OF Cons.prems])
  from Cons.IH[OF this] show ?case by (simp add: run_def)
qed

subsection \<open>Evaluating the handlers on a sample game\<close>

lemma lits: "lit ''A'' = [65]" "lit ''B'' = [66]" "lit ''R1'' = [82, 49]"
  "lit ''kapak'' = [107, 97, 112, 97, 107]" "lit ''kabak'' = [107, 97, 98, 97, 107]"
  "lit ''ann'' = [97, 110, 110]" "lit ''bob'' = [98, 111, 98]"
  by code_simp+

lemma demo_valid: "isValidWord demoPlatform [107, 97, 112, 97, 107]" "isValidWord demoPlatform [107, 97, 98, 97, 107]"
  by code_simp+

lemma sixGuessState_rooms: "gameRooms sixGuessState = [([82, 49], 0)]"
  by code_simp

lemma sixGuessState_room: "heap sixGuessState 0 =
     \<lparr>roomId = [82, 49],
      players = [\<lparr>pid = [65], name = [97, 110, 110],
                  guesses = replicate 6 ([107, 97, 98, 97, 107], [Some correct, Some correct, Some absent, Some correct, Some correct]),
                  timeRemaining = 30, isReady = True, isTimedOut = False\<rparr>,
                 \<lparr>pid = [66], name = [98, 111, 98], guesses = [], timeRemaining = 30,
                  isReady = True, isTimedOut = False\<rparr>],
      maxPlayers = 2, wordLength = 5, timeLimit = Some 30, status = playing,
      solution = [107, 97, 112, 97, 107], createdAt = 0, rematchRequest = None\<rparr>"
  by code_simp

lemma exhaustedState_rooms: "gameRooms exhaustedState = [([82, 49], 0)]"
  by code_simp

lemma exhaustedState_room: "heap exhaustedState 0 =
     \<lparr>roomId = [82, 49],
      players = [\<lparr>pid = [65], name = [97, 110, 110],
                  guesses = replicate 6 ([107, 97, 98, 97, 107], [Some correct, Some correct, Some absent, Some correct, Some correct]),
                  timeRemaining = 30, isReady = True, isTimedOut = False\<rparr>,
                 \<lparr>pid = [66], name = [98, 111, 98],
                  guesses = [([107, 97, 112, 97, 107], [Some correct, Some correct, Some correct, Some correct, Some correct])],
                  timeRemaining = 30, isReady = True, isTimedOut = False\<rparr>],
      maxPlayers = 2, wordLength = 5, timeLimit = Some 30, status = finished,
      solution = [107, 97, 112, 97, 107], createdAt = 0, rematchRequest = None\<rparr>"
  by code_simp

subsection \<open>make_guess\<close>

lemma make_guess_exhausted:
  assumes "findUserRoom p s = Some ra" "status (heap s (snd ra)) = playing"
    "int (length guess) = wordLength (heap s (snd ra))" "isValidWord pf guess"
    "find (\<lambda>q. pid q = p) (players (heap s (snd ra))) = Some player" "6 \<le> length (guesses player)"
  shows "make_guess pf p guess s = Done s [err p NoAttemptsLeft]"
  using assms by (simp add: make_guess_def Let_def)

text \<open>
  Claim C4, as amended. In every reachable state no player of any room has more than six
  guesses. The handler applies a guess to the room it finds for the caller, which is the first
  registered room whose roster holds the caller's id. If that room is \<open>playing\<close>, the caller
  already has six guesses in it, and the guess has the room's word length and is in the word
  list, then \<open>make_guess\<close> returns with the state unchanged and a single notification, the
  attempts-exhausted error, sent to the caller.
\<close>

theorem make_guess_attempts_exhausted:
  assumes "reach pf s"
  shows "(\<forall>a. \<forall>q \<in> set (players (heap s a)). length (guesses q) \<le> 6) \<and>
         (findUserRoom p s = Some ra \<and> status (heap s (snd ra)) = playing \<and>
          int (length guess) = wordLength (heap s (snd ra)) \<and> isValidWord pf guess \<and>
          find (\<lambda>q. pid q = p) (players (heap s (snd ra))) = Some player \<and>
          6 \<le> length (guesses player)
          \<longrightarrow> make_guess pf p guess s = Done s [err p NoAttemptsLeft])"
proof -
  have "room_ok (heap s a)" for a using reach_inv[OF assms] by (rule inv_room_ok)
  then have "\<forall>a. \<forall>q \<in> set (players (heap s a)). length (guesses q) \<le> 6"
    by (simp add: room_ok_def)
  then show ?thesis using make_guess_exhausted by blast
qed

theorem make_guess_attempts_exhausted_witness:
  "reach demoPlatform sixGuessState \<and>
   map (\<lambda>q. length (guesses q)) (players (heap sixGuessState 0)) = [6, 0] \<and>
   make_guess demoPlatform [65] [107, 97, 112, 97, 107] sixGuessState
     = Done sixGuessState [err [65] NoAttemptsLeft]"
proof -
  have r: "reach demoPlatform sixGuessState"
    unfolding sixGuessState_def by (rule reach_run[OF reach_init])
  have f: "findUserRoom [65] sixGuessState = Some ([82, 49], 0)"
    by (simp add: findUserRoom_def firstRoomOf_def sixGuessState_rooms sixGuessState_room)
  have m: "make_guess demoPlatform [65] [107, 97, 112, 97, 107] sixGuessState
             = Done sixGuessState [err [65] NoAttemptsLeft]"
    using make_guess_attempts_exhausted [OF r, of "[65]" "([82, 49], 0)" "[107, 97, 112, 97, 107]"
        "\<lparr>pid = [65], name = [97, 110, 110],
                  guesses = replicate 6 ([107, 97, 98, 97, 107], [Some correct, Some correct, Some absent, Some correct, Some correct]),
                  timeRemaining = 30, isReady = True, isTimedOut = False\<rparr>"]
    by (simp add: f sixGuessState_room demo_valid)
  show ?thesis using r m by (simp add: sixGuessState_room)
qed

subsection \<open>A player in two rooms\<close>

lemma guessRooms_rooms: "gameRooms guessRooms = [([82, 48], 0), ([82, 49], 1)]"
  by code_simp

lemma guessRooms_room0: "heap guessRooms 0 =
     \<lparr>roomId = [82, 48],
      players = [\<lparr>pid = [67], name = [99, 97, 114, 108], guesses = [], timeRemaining = 30,
                  isReady = True, isTimedOut = False\<rparr>,
                 \<lparr>pid = [65], name = [97, 110, 110], guesses = [], timeRemaining = 30,
                  isReady = True, isTimedOut = False\<rparr>],
      maxPlayers = 2, wordLength = 5, timeLimit = Some 30, status = playing,
      solution = [107, 97, 112, 97, 107], createdAt = 0, rematchRequest = None\<rparr>"
  by code_simp

lemma guessRooms_room1: "heap guessRooms (Suc 0) =
     \<lparr>roomId = [82, 49],
      players = [\<lparr>pid = [65], name = [97, 110, 110],
                  guesses = replicate 6 ([107, 97, 98, 97, 107], [Some correct, Some correct, Some absent, Some correct, Some correct]),
                  timeRemaining = 30, isReady = True, isTimedOut = False\<rparr>,
                 \<lparr>pid = [66], name = [98, 111, 98], guesses = [], timeRemaining = 30,
                  isReady = True, isTimedOut = False\<rparr>],
      maxPlayers = 2, wordLength = 5, timeLimit = Some 30, status = playing,
      solution = [107, 97, 112, 97, 107], createdAt = 0, rematchRequest = None\<rparr>"
  by code_simp

lemma guessRooms_seventh:
  "\<not> list_ex is_error (result_emissions (make_guess demoPlatform [65] [107, 97, 98, 97, 107] guessRooms))"
  "map (\<lambda>q. (pid q, length (guesses q)))
       (players (heap (result_state (make_guess demoPlatform [65] [107, 97, 98, 97, 107] guessRooms)) 0))
     = [([67], 0), ([65], 1)]"
  by code_simp+

text \<open>
  Claim C4 as stated fails in two ways. When the room is not \<open>playing\<close>: once Bob has won, Ann,
  who has six guesses, is told that the game is not active, not that her attempts are used up.
  And when the caller is in more than one room: Ann has six guesses in the playing room \<open>R1\<close>
  and has since joined the room \<open>R0\<close>, which was registered before; her next guess is applied
  to \<open>R0\<close>, where it is her first, with no error and a changed state.
\<close>

theorem make_guess_exhausted_counterexample:
  "reach demoPlatform exhaustedState \<and>
   findUserRoom [65] exhaustedState = Some ([82, 49], 0) \<and>
   map (\<lambda>q. length (guesses q)) (players (heap exhaustedState 0)) = [6, 1] \<and>
   int (length [107, 97, 112, 97, 107 :: nat]) = wordLength (heap exhaustedState 0) \<and>
   isValidWord demoPlatform [107, 97, 112, 97, 107] \<and>
   status (heap exhaustedState 0) = finished \<and>
   make_guess demoPlatform [65] [107, 97, 112, 97, 107] exhaustedState
     = Done exhaustedState [err [65] GameNotActive] \<and>
   err [65] GameNotActive \<noteq> err [65] NoAttemptsLeft \<and>
   reach demoPlatform guessRooms \<and>
   gameRooms guessRooms = [([82, 48], 0), ([82, 49], 1)] \<and>
   status (heap guessRooms 1) = playing \<and>
   map (\<lambda>q. (pid q, length (guesses q))) (players (heap guessRooms 1)) = [([65], 6), ([66], 0)] \<and>
   int (length [107, 97, 98, 97, 107 :: nat]) = wordLength (heap guessRooms 1) \<and>
   isValidWord demoPlatform [107, 97, 98, 97, 107] \<and>
   \<not> list_ex is_error (result_emissions (make_guess demoPlatform [65] [107, 97, 98, 97, 107] guessRooms)) \<and>
   map (\<lambda>q. (pid q, length (guesses q))) (players (heap guessRooms 0)) = [([67], 0), ([65], 0)] \<and>
   map (\<lambda>q. (pid q, length (guesses q)))
       (players (heap (result_state (make_guess demoPlatform [65] [107, 97, 98, 97, 107] guessRooms)) 0))
     = [([67], 0), ([65], 1)]"
proof -
  have r1: "reach demoPlatform exhaustedState"
    unfolding exhaustedState_def sixGuessState_def by (intro reach_run reach_init)
  have 1: "findUserRoom [65] exhaustedState = Some ([82, 49], 0)"
    by (simp add: findUserRoom_def firstRoomOf_def exhaustedState_rooms exhaustedState_room)
  have 6: "make_guess demoPlatform [65] [107, 97, 112, 97, 107] exhaustedState
     = Done exhaustedState [err [65] GameNotActive]"
    by (simp add: make_guess_def 1 exhaustedState_room)
  have a: "findUserRoom [65] exhaustedState = Some ([82, 49], 0) \<and>
   map (\<lambda>q. length (guesses q)) (players (heap exhaustedState 0)) = [6, 1] \<and>
   int (length [107, 97, 112, 97, 107 :: nat]) = wordLength (heap exhaustedState 0) \<and>
   isValidWord demoPlatform [107, 97, 112, 97, 107] \<and>
   status (heap exhaustedState 0) = finished \<and>
   make_guess demoPlatform [65] [107, 97, 112, 97, 107] exhaustedState
     = Done exhaustedState [err [65] GameNotActive] \<and>
   err [65] GameNotActive \<noteq> err [65] NoAttemptsLeft"
    using 1 6 by (simp add: err_def exhaustedState_room demo_valid)
  have r2: "reach demoPlatform guessRooms"
    unfolding guessRooms_def twoRoomsBase_def by (intro reach_run reach_init)
  have b: "status (heap guessRooms 1) = playing \<and>
   map (\<lambda>q. (pid q, length (guesses q))) (players (heap guessRooms 1)) = [([65], 6), ([66], 0)] \<and>
   int (length [107, 97, 98, 97, 107 :: nat]) = wordLength (heap guessRooms 1) \<and>
   isValidWord demoPlatform [107, 97, 98, 97, 107] \<and>
   map (\<lambda>q. (pid q, length (guesses q))) (players (heap guessRooms 0)) = [([67], 0), ([65], 0)]"
    by (simp add: guessRooms_room0 guessRooms_room1 demo_valid)
  show ?thesis using r1 a r2 guessRooms_rooms b guessRooms_seventh by blast
qed

subsection \<open>Failures leave the state alone\<close>

lemma finishOrUpdate_no_error: "\<not> list_ex is_error (snd (finishOrUpdate r a s))"
  by (simp add: finishOrUpdate_def Let_def)

lemma handlePlayerTimeout_no_error: "\<not> list_ex is_error (snd (handlePlayerTimeout r p a s))"
  by (simp add: handlePlayerTimeout_def Let_def finishOrUpdate_no_error split: option.splits)

lemma timer_tick_no_error: "\<not> list_ex is_error (snd (timer_tick r p s))"
  by (simp add: timer_tick_def Let_def handlePlayerTimeout_no_error split: option.splits)

lemma countdown_tick_no_error: "\<not> list_ex is_error (snd (countdown_tick i s))"
  by (simp add: countdown_tick_def Let_def split: prod.splits)

lemma error_join_room:
  "list_ex is_error (result_emissions (join_room p r nm s)) \<longrightarrow> result_state (join_room p r nm s) = s"
  by (simp add: join_room_def Let_def err_def split: option.split)

lemma error_make_guess:
  "list_ex is_error (result_emissions (make_guess pf p g s)) \<longrightarrow> result_state (make_guess pf p g s) = s"
  by (simp add: make_guess_def Let_def err_def invalid_def finishOrUpdate_no_error split: option.split)

lemma error_request_rematch:
  "list_ex is_error (result_emissions (request_rematch p s)) \<longrightarrow> result_state (request_rematch p s) = s"
  by (simp add: request_rematch_def Let_def err_def list_ex_iff split: option.split)

lemma error_accept_rematch:
  "list_ex is_error (result_emissions (accept_rematch pf e p s)) \<longrightarrow> result_state (accept_rematch pf e p s) = s"
  by (simp add: accept_rematch_def Let_def err_def split: option.split)

lemma error_decline_rematch:
  "list_ex is_error (result_emissions (decline_rematch p s)) \<longrightarrow> result_state (decline_rematch p s) = s"
  by (simp add: decline_rematch_def Let_def err_def split: option.split)

lemma error_others:
  "\<not> list_ex is_error (result_emissions (create_room pf e p nm mpIn wlIn tlIn s))"
  "\<not> list_ex is_error (result_emissions (disconnect p s))"
  by (simp_all add: create_room_def disconnect_def Let_def split: option.splits)

text \<open>
  Claim C5. Whenever an action (any socket event, and also any timer, countdown or clean-up
  callback) sends an \<open>error\<close> or \<open>invalid_word\<close> notification, it leaves the whole server state
  as it was: the registry, every room, the timers and the scheduled callbacks.
\<close>

theorem error_leaves_state:
  assumes "list_ex is_error (result_emissions (step pf act s))"
  shows "result_state (step pf act s) = s"
proof (cases act)
  case (CreateRoom e p nm mpIn wlIn tlIn) then show ?thesis using assms error_others(1) by simp
next
  case (JoinRoom p r nm) then show ?thesis using assms error_join_room by simp
next
  case (MakeGuess p g) then show ?thesis using assms error_make_guess by simp
next
  case (RequestRematch p) then show ?thesis using assms error_request_rematch by simp
next
  case (AcceptRematch e p) then show ?thesis using assms error_accept_rematch by simp
next
  case (DeclineRematch p) then show ?thesis using assms error_decline_rematch by simp
next
  case (Disconnect p) then show ?thesis using assms error_others(2) by simp
next
  case (TimerTick r p) then show ?thesis using assms timer_tick_no_error by (simp add: Let_def)
next
  case (CountdownTick i) then show ?thesis using assms countdown_tick_no_error by (simp add: Let_def)
next
  case (Cleanup i) then show ?thesis using assms by simp
qed

theorem error_leaves_state_witness:
  "list_ex is_error (result_emissions (step demoPlatform (MakeGuess [65] [107, 97, 112, 97, 107]) exhaustedState)) \<and>
   result_state (step demoPlatform (MakeGuess [65] [107, 97, 112, 97, 107]) exhaustedState) = exhaustedState"
proof -
  have 1: "findUserRoom [65] exhaustedState = Some ([82, 49], 0)"
    by (simp add: findUserRoom_def firstRoomOf_def exhaustedState_rooms exhaustedState_room)
  have h: "list_ex is_error (result_emissions (step demoPlatform (MakeGuess [65] [107, 97, 112, 97, 107]) exhaustedState))"
    by (simp add: make_guess_def 1 exhaustedState_room err_def)
  show ?thesis using h error_leaves_state [OF h] by simp
qed

subsection \<open>disconnect\<close>

lemma createdState_rooms: "gameRooms createdState = [([82, 49], 0)]"
  by code_simp

lemma createdState_room: "heap createdState 0 =
     \<lparr>roomId = [82, 49],
      players = [\<lparr>pid = [65], name = [97, 110, 110], guesses = [], timeRemaining = 30,
                  isReady = True, isTimedOut = False\<rparr>],
      maxPlayers = 2, wordLength = 5, timeLimit = Some 30, status = waiting,
      solution = [107, 97, 112, 97, 107], createdAt = 0, rematchRequest = None\<rparr>"
  by code_simp

lemma disconnect_last:
  assumes "firstRoomOf p s = Some ra"
    and "remove_first (\<lambda>q. pid q = p) (players (heap s (snd ra))) = []"
  shows "\<exists>s'. disconnect p s = Done s' [] \<and> map_of (gameTimers s') (fst ra) = None \<and>
              map_of (gameRooms s') (fst ra) = None \<and>
              join_room p' (fst ra) nm s' = Done s' [err p' RoomNotFound]"
proof -
  define s1 where "s1 = upd_room (snd ra) (\<lambda>gs. gs\<lparr>players := remove_first (\<lambda>q. pid q = p) (players gs)\<rparr>) s"
  define s' where "s' = (clearAllRoomTimers (fst ra) s1)\<lparr>gameRooms := AList.delete (fst ra) (gameRooms (clearAllRoomTimers (fst ra) s1))\<rparr>"
  have d: "disconnect p s = Done s' []"
    using assms by (simp add: disconnect_def Let_def s1_def s'_def)
  have t: "map_of (gameTimers s') (fst ra) = None"
    by (simp add: s'_def clearAllRoomTimers_def AList.delete_conv')
  have g: "map_of (gameRooms s') (fst ra) = None"
    by (simp add: s'_def AList.delete_conv')
  have j: "join_room p' (fst ra) nm s' = Done s' [err p' RoomNotFound]"
    using g by (simp add: join_room_def)
  show ?thesis using d t g j by blast
qed

text \<open>
  Claim C9. In every reachable state each registered room has at least one player. When a
  disconnect removes the last player of the caller's room, the handler clears all timers
  registered under the room id and deletes the room from the registry, so that a \<open>join_room\<close>
  with that id, by anyone, is answered with the room-not-found error and changes nothing.
\<close>

theorem disconnect_deletes_empty_room:
  assumes "reach pf s"
  shows "(\<forall>ra \<in> set (gameRooms s). players (heap s (snd ra)) \<noteq> []) \<and>
         (firstRoomOf p s = Some ra \<and>
          remove_first (\<lambda>q. pid q = p) (players (heap s (snd ra))) = []
          \<longrightarrow> (\<exists>s'. disconnect p s = Done s' [] \<and> map_of (gameTimers s') (fst ra) = None \<and>
                    map_of (gameRooms s') (fst ra) = None \<and>
                    join_room p' (fst ra) nm s' = Done s' [err p' RoomNotFound]))"
proof -
  have "\<forall>ra \<in> set (gameRooms s). players (heap s (snd ra)) \<noteq> []"
    using reach_inv[OF assms] by (simp add: inv_def)
  then show ?thesis using disconnect_last by blast
qed

theorem disconnect_deletes_empty_room_witness:
  "reach demoPlatform createdState \<and>
   firstRoomOf [65] createdState = Some ([82, 49], 0) \<and>
   (\<exists>s'. disconnect [65] createdState = Done s' [] \<and> map_of (gameTimers s') [82, 49] = None \<and>
         map_of (gameRooms s') [82, 49] = None \<and>
         join_room [66] [82, 49] [98, 111, 98] s' = Done s' [err [66] RoomNotFound])"
proof -
  have r: "reach demoPlatform createdState"
    unfolding createdState_def by (rule reach_run[OF reach_init])
  have f: "firstRoomOf [65] createdState = Some ([82, 49], 0)"
    by (simp add: firstRoomOf_def createdState_rooms createdState_room)
  have e: "remove_first (\<lambda>q. pid q = [65]) (players (heap createdState (snd ([82, 49] :: nat list, 0 :: nat)))) = []"
    by (simp add: createdState_room)
  show ?thesis
    using r f e disconnect_deletes_empty_room [OF r, of "[65]" "([82, 49], 0)" "[66]" "[98, 111, 98]"]
    by simp
qed

subsection \<open>accept_rematch\<close>

lemma rematchState_rooms: "gameRooms rematchState = [([82, 49], 0)]"
  by code_simp

lemma rematchState_room: "heap rematchState 0 =
     \<lparr>roomId = [82, 49],
      players = [\<lparr>pid = [65], name = [97, 110, 110],
                  guesses = replicate 6 ([107, 97, 98, 97, 107], [Some correct, Some correct, Some absent, Some correct, Some correct]),
                  timeRemaining = 30, isReady = True, isTimedOut = False\<rparr>,
                 \<lparr>pid = [66], name = [98, 111, 98],
                  guesses = [([107, 97, 112, 97, 107], [Some correct, Some correct, Some correct, Some correct, Some correct])],
                  timeRemaining = 30, isReady = True, isTimedOut = False\<rparr>],
      maxPlayers = 2, wordLength = 5, timeLimit = Some 30, status = finished,
      solution = [107, 97, 112, 97, 107], createdAt = 0,
      rematchRequest = Some \<lparr>requesterId = [65], requested = True, accepted = None\<rparr>\<rparr>"
  by code_simp

lemma accept_own:
  assumes "findUserRoom p s = Some ra" "rematchRequest (heap s (snd ra)) = Some rr" "requested rr"
    "requesterId rr = p"
  shows "accept_rematch pf e p s = Done s [err p CannotAcceptOwnRequest]"
  using assms by (simp add: accept_rematch_def Let_def)

lemma accept_other_draw:
  assumes f: "findUserRoom p s = Some ra" and rr: "rematchRequest (heap s (snd ra)) = Some rr" "requested rr"
    "requesterId rr \<noteq> p" and hw: "has_words pf (heap s (snd ra))"
  shows "\<exists>s'. accept_rematch pf e p s = Done s' [Emit (ToRoom (fst ra)) rematch_accepted JNull] \<and>
           (\<forall>q \<in> set (players (heap s' (snd ra))).
               guesses q = [] \<and> \<not> isTimedOut q \<and> timeRemaining q = or_minus1 (timeLimit (heap s (snd ra)))) \<and>
           map pid (players (heap s' (snd ra))) = map pid (players (heap s (snd ra))) \<and>
           (\<exists>ws. WORD_LISTS pf (wordLength (heap s (snd ra))) = Some ws \<and> ws \<noteq> [] \<and>
                 solution (heap s' (snd ra)) = ws ! (rand e mod length ws)) \<and>
           wordLength (heap s' (snd ra)) = wordLength (heap s (snd ra)) \<and>
           rematchRequest (heap s' (snd ra)) = None \<and>
           status (heap s' (snd ra)) = playing"
proof -
  from hw obtain ws where
    w: "WORD_LISTS pf (wordLength (heap s (snd ra))) = Some ws" "ws \<noteq> []"
    by (auto simp: has_words_def)
  then have g: "getRandomWord pf (rand e) (wordLength (heap s (snd ra))) = Some (ws ! (rand e mod length ws))"
    by (simp add: getRandomWord_def)
  show ?thesis
    using f rr w g by (simp add: accept_rematch_def Let_def comp_def)
qed

lemma twoRooms_rooms: "gameRooms twoRooms = [([82, 48], 0), ([82, 49], 1)]"
  by code_simp

lemma twoRooms_room0: "heap twoRooms 0 =
     \<lparr>roomId = [82, 48],
      players = [\<lparr>pid = [67], name = [99, 97, 114, 108], guesses = [], timeRemaining = 30,
                  isReady = True, isTimedOut = False\<rparr>,
                 \<lparr>pid = [66], name = [98, 111, 98], guesses = [], timeRemaining = 30,
                  isReady = True, isTimedOut = False\<rparr>],
      maxPlayers = 2, wordLength = 5, timeLimit = Some 30, status = playing,
      solution = [107, 97, 112, 97, 107], createdAt = 0, rematchRequest = None\<rparr>"
  by code_simp

lemma twoRooms_room1: "heap twoRooms (Suc 0) =
     \<lparr>roomId = [82, 49],
      players = [\<lparr>pid = [65], name = [97, 110, 110],
                  guesses = replicate 6 ([107, 97, 98, 97, 107], [Some correct, Some correct, Some absent, Some correct, Some correct]),
                  timeRemaining = 30, isReady = True, isTimedOut = False\<rparr>,
                 \<lparr>pid = [66], name = [98, 111, 98],
                  guesses = [([107, 97, 112, 97, 107], [Some correct, Some correct, Some correct, Some correct, Some correct])],
                  timeRemaining = 30, isReady = True, isTimedOut = False\<rparr>],
      maxPlayers = 2, wordLength = 5, timeLimit = Some 30, status = finished,
      solution = [107, 97, 112, 97, 107], createdAt = 0,
      rematchRequest = Some \<lparr>requesterId = [65], requested = True, accepted = None\<rparr>\<rparr>"
  by code_simp

text \<open>
  Claim C6, as amended. The handler looks for the request in the room it finds for the caller,
  which is the first registered room whose roster holds the caller's id. In a reachable state,
  let that room hold a pending rematch request. An \<open>accept_rematch\<close> by the requester returns
  the cannot-accept-own-request error and leaves the state as it was. An \<open>accept_rematch\<close> by
  any other caller for whom this room is found returns with \<open>rematch_accepted\<close> sent to the
  room, and in the new state every player of the room has no guesses, is not timed out and has
  the remaining time reset from the room's time limit; the players are the same; the word
  length is unchanged and the solution is the word that the random draw of the environment
  selects from the non-empty list for that length, whatever the solution was before; the
  negotiation record is gone and the status is \<open>playing\<close>.
\<close>

theorem accept_rematch_outcomes:
  assumes "reach pf s" "findUserRoom p s = Some ra"
    "rematchRequest (heap s (snd ra)) = Some rr" "requested rr"
  shows "(requesterId rr = p \<longrightarrow> accept_rematch pf e p s = Done s [err p CannotAcceptOwnRequest]) \<and>
         (requesterId rr \<noteq> p \<longrightarrow>
            (\<exists>s'. accept_rematch pf e p s = Done s' [Emit (ToRoom (fst ra)) rematch_accepted JNull] \<and>
               (\<forall>q \<in> set (players (heap s' (snd ra))).
                   guesses q = [] \<and> \<not> isTimedOut q \<and>
                   timeRemaining q = or_minus1 (timeLimit (heap s (snd ra)))) \<and>
               map pid (players (heap s' (snd ra))) = map pid (players (heap s (snd ra))) \<and>
               (\<exists>ws. WORD_LISTS pf (wordLength (heap s (snd ra))) = Some ws \<and> ws \<noteq> [] \<and>
                     solution (heap s' (snd ra)) = ws ! (rand e mod length ws)) \<and>
               wordLength (heap s' (snd ra)) = wordLength (heap s (snd ra)) \<and>
               rematchRequest (heap s' (snd ra)) = None \<and>
               status (heap s' (snd ra)) = playing))"
proof -
  have i: "inv pf s" by (rule reach_inv[OF assms(1)])
  have "snd ra < nextAddr s" by (rule inv_findUserRoom[OF i assms(2)])
  then have hw: "has_words pf (heap s (snd ra))" using i by (simp add: inv_def)
  show ?thesis using accept_own[OF assms(2,3,4)] accept_other_draw[OF assms(2,3,4) _ hw] by blast
qed

theorem accept_rematch_outcomes_witness:
  "reach demoPlatform rematchState \<and>
   accept_rematch demoPlatform secondDrawEnv [65] rematchState
     = Done rematchState [err [65] CannotAcceptOwnRequest] \<and>
   solution (heap rematchState 0) = [107, 97, 112, 97, 107] \<and>
   (\<exists>s'. accept_rematch demoPlatform secondDrawEnv [66] rematchState
            = Done s' [Emit (ToRoom [82, 49]) rematch_accepted JNull] \<and>
         (\<forall>q \<in> set (players (heap s' 0)). guesses q = [] \<and> \<not> isTimedOut q \<and> timeRemaining q = 30) \<and>
         solution (heap s' 0) = [107, 97, 98, 97, 107] \<and>
         rematchRequest (heap s' 0) = None \<and> status (heap s' 0) = playing)"
proof -
  have r: "reach demoPlatform rematchState"
    unfolding rematchState_def exhaustedState_def sixGuessState_def
    by (intro reach_run reach_init)
  have fa: "findUserRoom [65] rematchState = Some ([82, 49], 0)"
    by (simp add: findUserRoom_def firstRoomOf_def rematchState_rooms rematchState_room)
  have fb: "findUserRoom [66] rematchState = Some ([82, 49], 0)"
    by (simp add: findUserRoom_def firstRoomOf_def rematchState_rooms rematchState_room)
  have q: "rematchRequest (heap rematchState (snd ([82, 49] :: nat list, 0 :: nat)))
             = Some \<lparr>requesterId = [65], requested = True, accepted = None\<rparr>"
    "requested \<lparr>requesterId = [65], requested = True, accepted = None\<rparr>"
    by (simp_all add: rematchState_room)
  have w: "WORD_LISTS demoPlatform 5 = Some [[107, 97, 112, 97, 107], [107, 97, 98, 97, 107]]"
    by code_simp
  have d: "rand secondDrawEnv = 1" by (simp add: secondDrawEnv_def)
  have a: "accept_rematch demoPlatform secondDrawEnv [65] rematchState
             = Done rematchState [err [65] CannotAcceptOwnRequest]"
    using accept_rematch_outcomes [OF r fa q, of secondDrawEnv] by simp
  have b: "\<exists>s'. accept_rematch demoPlatform secondDrawEnv [66] rematchState
            = Done s' [Emit (ToRoom [82, 49]) rematch_accepted JNull] \<and>
         (\<forall>q \<in> set (players (heap s' 0)). guesses q = [] \<and> \<not> isTimedOut q \<and> timeRemaining q = 30) \<and>
         solution (heap s' 0) = [107, 97, 98, 97, 107] \<and>
         rematchRequest (heap s' 0) = None \<and> status (heap s' 0) = playing"
    using accept_rematch_outcomes [OF r fb q, of secondDrawEnv]
    by (simp add: rematchState_room or_minus1_def w d) blast
  show ?thesis using r a b by (simp add: rematchState_room)
qed

text \<open>
  Claim C6 as stated fails for a member who is also in a room registered earlier. Bob is a
  player of the full, finished room \<open>R1\<close>, in which Ann's request is pending, and of the room
  \<open>R0\<close>, which was registered before \<open>R1\<close> and has no request: his \<open>accept_rematch\<close> is
  answered with the no-request error and nothing is reset.
\<close>

theorem accept_rematch_other_room_counterexample:
  "reach demoPlatform twoRooms \<and>
   gameRooms twoRooms = [([82, 48], 0), ([82, 49], 1)] \<and>
   map pid (players (heap twoRooms 0)) = [[67], [66]] \<and>
   rematchRequest (heap twoRooms 0) = None \<and>
   map pid (players (heap twoRooms 1)) = [[65], [66]] \<and>
   status (heap twoRooms 1) = finished \<and> maxPlayers (heap twoRooms 1) = 2 \<and>
   rematchRequest (heap twoRooms 1) = Some \<lparr>requesterId = [65], requested = True, accepted = None\<rparr> \<and>
   accept_rematch demoPlatform demoEnv [66] twoRooms = Done twoRooms [err [66] NoRematchRequest]"
proof -
  have r: "reach demoPlatform twoRooms"
    unfolding twoRooms_def twoRoomsBase_def by (intro reach_run reach_init)
  have f: "findUserRoom [66] twoRooms = Some ([82, 48], 0)"
    by (simp add: findUserRoom_def firstRoomOf_def twoRooms_rooms twoRooms_room0)
  have a: "accept_rematch demoPlatform demoEnv [66] twoRooms = Done twoRooms [err [66] NoRematchRequest]"
    by (simp add: accept_rematch_def f twoRooms_room0)
  show ?thesis using r a by (simp add: twoRooms_rooms twoRooms_room0 twoRooms_room1)
qed

subsection \<open>Timeouts and the end of the game\<close>

lemma length_filter_eq_iff: "(length (filter P xs) = length xs) = (\<forall>x \<in> set xs. P x)"
proof (induction xs)
  case Nil show ?case by simp
next
  case (Cons x xs)
  have "length (filter P xs) \<noteq> Suc (length xs)"
    using length_filter_le[of P xs] by linarith
  then show ?case using Cons by auto
qed

lemma checkGameEnd_no_winner:
  assumes "\<forall>p \<in> set (players gs). \<not> lastGuessWins p"
  shows "checkGameEnd gs =
           (if (\<forall>q \<in> set (players gs). isTimedOut q) \<or>
               (\<forall>q \<in> set (players gs). 6 \<le> length (guesses q) \<or> isTimedOut q)
            then (True, None) else (False, None))"
proof -
  have "find lastGuessWins (players gs) = None" using assms by (simp add: find_None_iff)
  then show ?thesis by (simp add: checkGameEnd_def length_filter_eq_iff list_all_iff)
qed

lemma lastGuessWins_map_cong:
  assumes "map guesses ps' = map guesses ps"
  shows "(\<forall>q \<in> set ps'. \<not> lastGuessWins q) = (\<forall>q \<in> set ps. \<not> lastGuessWins q)"
proof -
  define wins where "wins = (\<lambda>h :: (jsstring \<times> feedback option list) list.
      case h of [] \<Rightarrow> False | _ # _ \<Rightarrow> js_every (\<lambda>f. f = correct) (snd (last h)))"
  have w: "lastGuessWins q = wins (guesses q)" for q by (simp add: lastGuessWins_def wins_def)
  show ?thesis unfolding w using ball_players_cong[OF assms, of "\<lambda>h. \<not> wins h"] .
qed

lemma upd_first_set_distinct:
  assumes "distinct (map g ps)" "find (\<lambda>q. g q = k) ps = Some pl"
  shows "set (upd_first (\<lambda>q. g q = k) f ps) = insert (f pl) {q \<in> set ps. g q \<noteq> k}"
  using assms
proof (induction ps)
  case Nil then show ?case by simp
next
  case (Cons x xs)
  show ?case
  proof (cases "g x = k")
    case True
    then have "pl = x" using Cons.prems(2) by simp
    moreover have "g x \<notin> g ` set xs" using Cons.prems(1) by simp
    then have "\<forall>q \<in> set xs. g q \<noteq> k" using True by (metis image_eqI)
    ultimately show ?thesis using True by auto
  next
    case False
    then have "find (\<lambda>q. g q = k) xs = Some pl" using Cons.prems(2) by simp
    moreover have "distinct (map g xs)" using Cons.prems(1) by simp
    ultimately have "set (upd_first (\<lambda>q. g q = k) f xs) = insert (f pl) {q \<in> set xs. g q \<noteq> k}"
      by (rule Cons.IH[rotated])
    then show ?thesis using False by auto
  qed
qed

lemma playing_no_winner:
  assumes "reach pf s" "status (heap s a) = playing"
  shows "\<forall>q \<in> set (players (heap s a)). \<not> lastGuessWins q"
  using inv_room_ok[OF reach_inv[OF assms(1)], of a] assms(2) by (simp add: room_ok_def)

lemma timeout_check:
  assumes "reach pf s" "status (heap s a) = playing"
    and "map guesses (players gs) = map guesses (players (heap s a))"
  shows "((\<forall>q \<in> set (players gs). isTimedOut q) \<longrightarrow> checkGameEnd gs = (True, None)) \<and>
         ((\<exists>q \<in> set (players gs). \<not> isTimedOut q \<and> length (guesses q) < 6)
            \<longrightarrow> checkGameEnd gs = (False, None))"
proof -
  have "\<forall>q \<in> set (players gs). \<not> lastGuessWins q"
    using lastGuessWins_map_cong[OF assms(3)] playing_no_winner[OF assms(1,2)] by simp
  from checkGameEnd_no_winner[OF this] show ?thesis by (auto simp: not_le)
qed

lemma timeout_handler:
  assumes r: "reach pf s" and st: "status (heap s a) = playing"
  shows "(list_ex (\<lambda>q. pid q = p) (players (heap s a)) \<and>
          (\<forall>q \<in> set (players (heap s a)). pid q \<noteq> p \<longrightarrow> isTimedOut q)
          \<longrightarrow> snd (handlePlayerTimeout rm p a s)
                = [Emit (ToRoom p) player_timeout (JObj [(''message'', JMsg TimeIsUp)]),
                   Emit (ToRoom rm) game_over
                     (game_over_payload None (heap (fst (handlePlayerTimeout rm p a s)) a))] \<and>
              status (heap (fst (handlePlayerTimeout rm p a s)) a) = finished) \<and>
         ((\<exists>q \<in> set (players (heap s a)). pid q \<noteq> p \<and> \<not> isTimedOut q \<and> length (guesses q) < 6)
          \<longrightarrow> \<not> list_ex (\<lambda>e. emission_event e = game_over) (snd (handlePlayerTimeout rm p a s)) \<and>
              status (heap (fst (handlePlayerTimeout rm p a s)) a) = playing)"
proof (cases "find (\<lambda>q. pid q = p) (players (heap s a))")
  case None
  then have "\<not> list_ex (\<lambda>q. pid q = p) (players (heap s a))" by (simp add: find_None_iff_list_ex)
  then show ?thesis using None st by (simp add: handlePlayerTimeout_def)
next
  case (Some player)
  define f where "f = (\<lambda>q :: PlayerState. q\<lparr>isTimedOut := True\<rparr>)"
  define s1 where "s1 = upd_player a p f s"
  define gs1 where "gs1 = heap s1 a"
  let ?ps = "upd_first (\<lambda>q. pid q = p) f (players (heap s a))"
  have g1: "gs1 = (heap s a)\<lparr>players := ?ps\<rparr>" by (simp add: gs1_def s1_def upd_player_heap)
  have d: "distinct (map pid (players (heap s a)))"
    using inv_room_ok[OF reach_inv[OF r], of a] by (simp add: room_ok_def)
  have set1: "set (players gs1) = insert (f player) {q \<in> set (players (heap s a)). pid q \<noteq> p}"
    unfolding g1 using upd_first_set_distinct[OF d Some, of f] by simp
  have mg: "map guesses (players gs1) = map guesses (players (heap s a))"
    unfolding g1 using upd_first_map[of guesses f] by (simp add: f_def)
  note chk = timeout_check[OF r st mg]
  have h: "handlePlayerTimeout rm p a s =
             (fst (finishOrUpdate rm a s1),
              Emit (ToRoom p) player_timeout (JObj [(''message'', JMsg TimeIsUp)]) # snd (finishOrUpdate rm a s1))"
    using Some by (simp add: handlePlayerTimeout_def Let_def s1_def f_def)
  have st1: "status gs1 = playing" using st by (simp add: g1)
  have A: "snd (handlePlayerTimeout rm p a s)
                = [Emit (ToRoom p) player_timeout (JObj [(''message'', JMsg TimeIsUp)]),
                   Emit (ToRoom rm) game_over
                     (game_over_payload None (heap (fst (handlePlayerTimeout rm p a s)) a))] \<and>
              status (heap (fst (handlePlayerTimeout rm p a s)) a) = finished"
    if "\<forall>q \<in> set (players (heap s a)). pid q \<noteq> p \<longrightarrow> isTimedOut q"
  proof -
    have "\<forall>q \<in> set (players gs1). isTimedOut q" using that set1 by (auto simp: f_def)
    then have "checkGameEnd (heap s1 a) = (True, None)" using chk by (simp add: gs1_def)
    then show ?thesis unfolding h by (simp add: finishOrUpdate_def Let_def)
  qed
  have B: "\<not> list_ex (\<lambda>e. emission_event e = game_over) (snd (handlePlayerTimeout rm p a s)) \<and>
              status (heap (fst (handlePlayerTimeout rm p a s)) a) = playing"
    if "\<exists>q \<in> set (players (heap s a)). pid q \<noteq> p \<and> \<not> isTimedOut q \<and> length (guesses q) < 6"
  proof -
    from that set1 have "\<exists>q \<in> set (players gs1). \<not> isTimedOut q \<and> length (guesses q) < 6" by blast
    then have "checkGameEnd (heap s1 a) = (False, None)" using chk by (simp add: gs1_def)
    then show ?thesis unfolding h using st1 by (simp add: finishOrUpdate_def Let_def gs1_def)
  qed
  show ?thesis using A B by blast
qed
lemma playingState_room: "heap playingState 0 =
     \<lparr>roomId = [82, 49],
      players = [\<lparr>pid = [65], name = [97, 110, 110], guesses = [], timeRemaining = 30,
                  isReady = True, isTimedOut = False\<rparr>,
                 \<lparr>pid = [66], name = [98, 111, 98], guesses = [], timeRemaining = 30,
                  isReady = True, isTimedOut = False\<rparr>],
      maxPlayers = 2, wordLength = 5, timeLimit = Some 30, status = playing,
      solution = [107, 97, 112, 97, 107], createdAt = 0, rematchRequest = None\<rparr>"
  by code_simp

lemma aloneState_room: "heap aloneState 0 =
     \<lparr>roomId = [82, 49],
      players = [\<lparr>pid = [65], name = [97, 110, 110], guesses = [], timeRemaining = 30,
                  isReady = True, isTimedOut = False\<rparr>],
      maxPlayers = 2, wordLength = 5, timeLimit = Some 30, status = playing,
      solution = [107, 97, 112, 97, 107], createdAt = 0, rematchRequest = None\<rparr>"
  by code_simp

text \<open>
  Claim C2. Let a room of a reachable state be \<open>playing\<close>. On that room, and on the room with
  any of its timed-out flags changed (the state in which the timeout handler runs the check),
  \<open>checkGameEnd\<close> reports an end without winner when every player is timed out, and reports no
  end when some player is not timed out and has fewer than six guesses. Accordingly the
  timeout handler, for a player of the room, sends \<open>game_over\<close> with \<open>winnerId\<close> \<open>null\<close> and
  finishes the game when all other players are timed out, and sends no \<open>game_over\<close> and leaves the
  game \<open>playing\<close> when some other player is not timed out and has fewer than six guesses.
\<close>

theorem timeout_game_end:
  assumes "reach pf s" "status (heap s a) = playing"
  shows "(\<forall>gs. map guesses (players gs) = map guesses (players (heap s a)) \<longrightarrow>
            ((\<forall>q \<in> set (players gs). isTimedOut q) \<longrightarrow> checkGameEnd gs = (True, None)) \<and>
            ((\<exists>q \<in> set (players gs). \<not> isTimedOut q \<and> length (guesses q) < 6)
               \<longrightarrow> checkGameEnd gs = (False, None))) \<and>
         (list_ex (\<lambda>q. pid q = p) (players (heap s a)) \<and>
          (\<forall>q \<in> set (players (heap s a)). pid q \<noteq> p \<longrightarrow> isTimedOut q)
          \<longrightarrow> snd (handlePlayerTimeout rm p a s)
                = [Emit (ToRoom p) player_timeout (JObj [(''message'', JMsg TimeIsUp)]),
                   Emit (ToRoom rm) game_over
                     (game_over_payload None (heap (fst (handlePlayerTimeout rm p a s)) a))] \<and>
              status (heap (fst (handlePlayerTimeout rm p a s)) a) = finished) \<and>
         ((\<exists>q \<in> set (players (heap s a)). pid q \<noteq> p \<and> \<not> isTimedOut q \<and> length (guesses q) < 6)
          \<longrightarrow> \<not> list_ex (\<lambda>e. emission_event e = game_over) (snd (handlePlayerTimeout rm p a s)) \<and>
              status (heap (fst (handlePlayerTimeout rm p a s)) a) = playing)"
  using timeout_check[OF assms] timeout_handler[OF assms] by blast

theorem timeout_game_end_witness:
  "reach demoPlatform playingState \<and> reach demoPlatform aloneState \<and>
   status (heap playingState 0) = playing \<and> status (heap aloneState 0) = playing \<and>
   checkGameEnd (heap playingState 0) = (False, None) \<and>
   checkGameEnd ((heap playingState 0)\<lparr>players := map (\<lambda>q. q\<lparr>isTimedOut := True\<rparr>) (players (heap playingState 0))\<rparr>)
     = (True, None) \<and>
   \<not> list_ex (\<lambda>e. emission_event e = game_over) (snd (handlePlayerTimeout [82, 49] [65] 0 playingState)) \<and>
   status (heap (fst (handlePlayerTimeout [82, 49] [65] 0 playingState)) 0) = playing \<and>
   snd (handlePlayerTimeout [82, 49] [65] 0 aloneState)
     = [Emit (ToRoom [65]) player_timeout (JObj [(''message'', JMsg TimeIsUp)]),
        Emit (ToRoom [82, 49]) game_over
          (game_over_payload None (heap (fst (handlePlayerTimeout [82, 49] [65] 0 aloneState)) 0))] \<and>
   status (heap (fst (handlePlayerTimeout [82, 49] [65] 0 aloneState)) 0) = finished"
proof -
  have r1: "reach demoPlatform playingState"
    unfolding playingState_def by (rule reach_run[OF reach_init])
  have r2: "reach demoPlatform aloneState"
    unfolding aloneState_def by (rule reach_run[OF r1])
  have s1: "status (heap playingState 0) = playing" by (simp add: playingState_room)
  have s2: "status (heap aloneState 0) = playing" by (simp add: aloneState_room)
  note T1 = timeout_game_end [OF r1 s1, of "[65]" "[82, 49]"]
  note T2 = timeout_game_end [OF r2 s2, of "[65]" "[82, 49]"]
  have a: "checkGameEnd (heap playingState 0) = (False, None)"
    using T1 [THEN conjunct1, rule_format, of "heap playingState 0", THEN conjunct2]
    by (simp add: playingState_room)
  have b: "checkGameEnd ((heap playingState 0)\<lparr>players := map (\<lambda>q. q\<lparr>isTimedOut := True\<rparr>) (players (heap playingState 0))\<rparr>)
     = (True, None)"
    using T1 [THEN conjunct1, rule_format,
        of "(heap playingState 0)\<lparr>players := map (\<lambda>q. q\<lparr>isTimedOut := True\<rparr>) (players (heap playingState 0))\<rparr>",
        THEN conjunct1]
    by (simp add: playingState_room)
  have c: "\<not> list_ex (\<lambda>e. emission_event e = game_over) (snd (handlePlayerTimeout [82, 49] [65] 0 playingState)) \<and>
      status (heap (fst (handlePlayerTimeout [82, 49] [65] 0 playingState)) 0) = playing"
    using T1 [THEN conjunct2, THEN conjunct2] by (simp add: playingState_room)
  have d: "snd (handlePlayerTimeout [82, 49] [65] 0 aloneState)
     = [Emit (ToRoom [65]) player_timeout (JObj [(''message'', JMsg TimeIsUp)]),
        Emit (ToRoom [82, 49]) game_over
          (game_over_payload None (heap (fst (handlePlayerTimeout [82, 49] [65] 0 aloneState)) 0))] \<and>
      status (heap (fst (handlePlayerTimeout [82, 49] [65] 0 aloneState)) 0) = finished"
    using T2 [THEN conjunct2, THEN conjunct1] by (simp add: aloneState_room)
  show ?thesis using r1 r2 s1 s2 a b c d by blast
qed

subsection \<open>Filling a room\<close>

lemma upd_first_other:
  assumes "x \<in> set (upd_first P f ps)" "\<not> P x" "\<And>y. P y \<Longrightarrow> P (f y)"
  shows "x \<in> set ps"
  using assms by (induction ps) (auto split: if_splits)

lemma has_timer_keep:
  assumes "has_timer r q a s" "q \<noteq> p"
  shows "has_timer r q a (startPlayerTimer r p a' s)"
proof -
  from assms(1) obtain m where m: "map_of (gameTimers s) r = Some m" "map_of m q = Some a"
    by (auto simp: has_timer_def split: option.splits)
  have c: "has_timer r q a (clearPlayerTimer r p s)"
    using m assms(2) by (simp add: has_timer_def clearPlayerTimer_def AList.map_of_map_entry AList.delete_conv')
  then obtain m1 where m1: "map_of (gameTimers (clearPlayerTimer r p s)) r = Some m1" "map_of m1 q = Some a"
    by (auto simp: has_timer_def split: option.splits)
  show ?thesis
  proof (cases "find (\<lambda>x. pid x = p) (players (heap s a'))")
    case None then show ?thesis using assms(1) by (simp add: startPlayerTimer_def)
  next
    case (Some player)
    show ?thesis
    proof (cases "isTimedOut player")
      case True then show ?thesis using Some assms(1) by (simp add: startPlayerTimer_def)
    next
      case False
      show ?thesis
      proof (cases "timeLimit (heap s a')")
        case None
        then show ?thesis using Some False assms(1)
          by (simp add: startPlayerTimer_def has_timer_def)
      next
        case (Some limit)
        then show ?thesis
          using \<open>find (\<lambda>x. pid x = p) (players (heap s a')) = Some player\<close> False m1 assms(2)
          by (simp add: startPlayerTimer_def has_timer_def Let_def AList.map_of_map_entry AList.update_conv')
      qed
    qed
  qed
qed

lemma has_timer_self:
  assumes "find (\<lambda>x. pid x = p) (players (heap s a)) = Some player" "\<not> isTimedOut player"
    "timeLimit (heap s a) = Some limit"
  shows "has_timer r p a (startPlayerTimer r p a s)"
  using assms
  by (simp add: startPlayerTimer_def has_timer_def Let_def AList.map_of_map_entry AList.update_conv'
           split: option.splits)

lemma upd_first_id: "upd_first P (\<lambda>q. q) ps = ps"
  by (induction ps) auto

lemma startPlayerTimer_players:
  "\<exists>f. (\<forall>q. pid (f q) = pid q) \<and>
       players (heap (startPlayerTimer r p a s) a) = upd_first (\<lambda>q. pid q = p) f (players (heap s a)) \<and>
       (\<forall>pl. find (\<lambda>q. pid q = p) (players (heap s a)) = Some pl \<and> \<not> isTimedOut pl
              \<longrightarrow> timeRemaining (f pl) = (case timeLimit (heap s a) of None \<Rightarrow> - 1 | Some l \<Rightarrow> l))"
proof (cases "find (\<lambda>q. pid q = p) (players (heap s a))")
  case None
  show ?thesis
    by (rule exI[of _ "\<lambda>q. q"]) (use None in \<open>simp add: startPlayerTimer_def upd_first_id\<close>)
next
  case (Some player)
  show ?thesis
  proof (cases "isTimedOut player")
    case True
    show ?thesis
      by (rule exI[of _ "\<lambda>q. q"]) (use Some True in \<open>simp add: startPlayerTimer_def upd_first_id\<close>)
  next
    case False
    show ?thesis
    proof (cases "timeLimit (heap s a)")
      case None
      show ?thesis
        by (rule exI[of _ "\<lambda>q. q\<lparr>timeRemaining := - 1\<rparr>"])
           (use Some False None in \<open>simp add: startPlayerTimer_def upd_player_heap\<close>)
    next
      case lim: (Some limit)
      show ?thesis
        by (rule exI[of _ "\<lambda>q. q\<lparr>timeRemaining := limit\<rparr>"])
           (use Some False lim in \<open>simp add: startPlayerTimer_def Let_def upd_player_heap clearPlayerTimer_def\<close>)
    qed
  qed
qed
lemma armed_self:
  assumes d: "distinct (map pid (players (heap s a)))"
    and f: "find (\<lambda>q. pid q = p) (players (heap s a)) = Some pl" and nt: "\<not> isTimedOut pl"
  shows "armed r a (timeLimit (heap s a)) (startPlayerTimer r p a s) p"
proof -
  from startPlayerTimer_players[of r p a s] obtain fn where
    fn: "players (heap (startPlayerTimer r p a s) a) = upd_first (\<lambda>q. pid q = p) fn (players (heap s a))"
        "timeRemaining (fn pl) = (case timeLimit (heap s a) of None \<Rightarrow> - 1 | Some l \<Rightarrow> l)"
    using f nt by blast
  have st: "set (players (heap (startPlayerTimer r p a s) a)) = insert (fn pl) {q \<in> set (players (heap s a)). pid q \<noteq> p}"
    unfolding fn(1) by (rule upd_first_set_distinct[OF d f])
  have 1: "\<forall>q \<in> set (players (heap (startPlayerTimer r p a s) a)). pid q = p \<longrightarrow>
          timeRemaining q = (case timeLimit (heap s a) of None \<Rightarrow> - 1 | Some l \<Rightarrow> l)"
    using st fn(2) by auto
  have 2: "timeLimit (heap s a) \<noteq> None \<longrightarrow> has_timer r p a (startPlayerTimer r p a s)"
    using has_timer_self[OF f nt] by auto
  show ?thesis unfolding armed_def using 1 2 by blast
qed

lemma armed_keep:
  assumes "armed r a t s q" "q \<noteq> p"
  shows "armed r a t (startPlayerTimer r p a s) q"
proof -
  from startPlayerTimer_players[of r p a s] obtain fn where
    fn: "\<forall>x. pid (fn x) = pid x"
        "players (heap (startPlayerTimer r p a s) a) = upd_first (\<lambda>x. pid x = p) fn (players (heap s a))"
    by blast
  have 1: "timeRemaining x = (case t of None \<Rightarrow> - 1 | Some l \<Rightarrow> l)"
    if "x \<in> set (players (heap (startPlayerTimer r p a s) a))" "pid x = q" for x
  proof -
    have "x \<in> set (players (heap s a))"
      by (rule upd_first_other[of x "\<lambda>x. pid x = p" fn]) (use that fn assms(2) in auto)
    then show ?thesis using assms(1) that(2) by (simp add: armed_def)
  qed
  have 2: "t \<noteq> None \<longrightarrow> has_timer r q a (startPlayerTimer r p a s)"
    using assms has_timer_keep by (simp add: armed_def)
  show ?thesis unfolding armed_def using 1 2 by blast
qed

lemma fold_armed_keep:
  assumes "armed r a t s q" "q \<notin> set ids"
  shows "armed r a t (fold (\<lambda>p. startPlayerTimer r p a) ids s) q"
  using assms
proof (induction ids arbitrary: s)
  case Nil then show ?case by simp
next
  case (Cons x ids)
  have "armed r a t (startPlayerTimer r x a s) q" by (rule armed_keep) (use Cons.prems in auto)
  then show ?case using Cons.IH Cons.prems(2) by simp
qed

lemma fold_armed:
  assumes "distinct (map pid (players (heap s a)))"
    and "\<forall>q \<in> set (players (heap s a)). \<not> isTimedOut q"
    and "set ids \<subseteq> pid ` set (players (heap s a))"
  shows "\<forall>p \<in> set ids. armed r a (timeLimit (heap s a)) (fold (\<lambda>p. startPlayerTimer r p a) ids s) p"
  using assms
proof (induction ids arbitrary: s)
  case Nil then show ?case by simp
next
  case (Cons x ids)
  let ?s1 = "startPlayerTimer r x a s"
  have rt: "retimed a s ?s1" by (rule startPlayerTimer_retimed)
  then obtain ps' where ps': "heap ?s1 = (heap s)(a := (heap s a)\<lparr>players := ps'\<rparr>)"
    "map pid ps' = map pid (players (heap s a))" "map isTimedOut ps' = map isTimedOut (players (heap s a))"
    unfolding retimed_def by blast
  have p1: "players (heap ?s1 a) = ps'" using ps'(1) by simp
  have tl: "timeLimit (heap ?s1 a) = timeLimit (heap s a)" by (rule retimed_same[OF rt])
  have d1: "distinct (map pid (players (heap ?s1 a)))" using Cons.prems(1) p1 ps'(2) by simp
  have n1: "\<forall>q \<in> set (players (heap ?s1 a)). \<not> isTimedOut q"
    using ball_players_cong[OF ps'(3), of "\<lambda>b. \<not> b"] Cons.prems(2) p1 by simp
  have "pid ` set (players (heap ?s1 a)) = pid ` set (players (heap s a))"
    using ps'(2) p1 by (metis set_map)
  then have i1: "set ids \<subseteq> pid ` set (players (heap ?s1 a))" using Cons.prems(3) by simp
  have IH: "\<forall>p \<in> set ids. armed r a (timeLimit (heap s a)) (fold (\<lambda>p. startPlayerTimer r p a) ids ?s1) p"
    using Cons.IH[OF d1 n1 i1] tl by simp
  have X: "armed r a (timeLimit (heap s a)) (fold (\<lambda>p. startPlayerTimer r p a) ids ?s1) x"
  proof (cases "x \<in> set ids")
    case True then show ?thesis using IH by blast
  next
    case False
    have "x \<in> pid ` set (players (heap s a))" using Cons.prems(3) by simp
    then have "list_ex (\<lambda>q. pid q = x) (players (heap s a))" by (auto simp: list_ex_iff)
    then obtain pl where pl: "find (\<lambda>q. pid q = x) (players (heap s a)) = Some pl"
      using find_None_iff_list_ex[of "\<lambda>q. pid q = x" "players (heap s a)"] by auto
    then have "\<not> isTimedOut pl" using find_Some_set[OF pl] Cons.prems(2) by blast
    from armed_self[OF Cons.prems(1) pl this]
    have "armed r a (timeLimit (heap s a)) ?s1 x" .
    then show ?thesis using False by (rule fold_armed_keep)
  qed
  show ?case using IH X by simp
qed

lemma startAllTimers_armed:
  assumes "distinct (map pid (players (heap s a)))"
    and "\<forall>q \<in> set (players (heap s a)). \<not> isTimedOut q"
  shows "\<forall>q \<in> set (players (heap (startAllTimers r a s) a)).
           case timeLimit (heap (startAllTimers r a s) a) of
             Some t \<Rightarrow> timeRemaining q = t \<and> has_timer r (pid q) a (startAllTimers r a s)
           | None \<Rightarrow> timeRemaining q = - 1"
proof
  fix q assume q: "q \<in> set (players (heap (startAllTimers r a s) a))"
  let ?s' = "startAllTimers r a s"
  have rt: "retimed a s ?s'" by (rule startAllTimers_retimed)
  have "map pid (players (heap ?s' a)) = map pid (players (heap s a))" by (rule retimed_same[OF rt])
  then have "pid ` set (players (heap ?s' a)) = pid ` set (players (heap s a))" by (metis set_map)
  then have m: "pid q \<in> set (map pid (players (heap s a)))" using q by auto
  have tl: "timeLimit (heap ?s' a) = timeLimit (heap s a)" by (rule retimed_same[OF rt])
  have "armed r a (timeLimit (heap s a)) ?s' (pid q)"
    unfolding startAllTimers_def using fold_armed[OF assms, of "map pid (players (heap s a))" r] m by auto
  then show "case timeLimit (heap ?s' a) of
             Some t \<Rightarrow> timeRemaining q = t \<and> has_timer r (pid q) a ?s'
           | None \<Rightarrow> timeRemaining q = - 1"
    unfolding tl using q by (auto simp: armed_def startAllTimers_def split: option.splits)
qed

lemma join_fills:
  assumes r: "reach pf s" and g: "map_of (gameRooms s) rm = Some a" and w: "status (heap s a) = waiting"
    and n: "\<not> list_ex (\<lambda>q. pid q = p) (players (heap s a))"
    and full: "int (length (players (heap s a))) + 1 = maxPlayers (heap s a)"
  shows "\<exists>s' es. join_room p rm nm s = Done s' (es @ [Emit (ToRoom rm) game_start (state_payload (heap s' a))]) \<and>
           \<not> list_ex (\<lambda>e. emission_event e = game_start) es \<and>
           status (heap s' a) = playing \<and>
           map pid (players (heap s' a)) = map pid (players (heap s a)) @ [p] \<and>
           (\<forall>q \<in> set (players (heap s' a)).
               case timeLimit (heap s' a) of
                 Some t \<Rightarrow> timeRemaining q = t \<and> has_timer rm (pid q) a s'
               | None \<Rightarrow> timeRemaining q = - 1)"
proof -
  have ok: "room_ok (heap s a)" by (rule inv_room_ok[OF reach_inv[OF r]])
  define new where "new = \<lparr>pid = p, name = nm, guesses = [], timeRemaining = or_minus1 (timeLimit (heap s a)),
                         isReady = True, isTimedOut = False\<rparr>"
  define sJ where "sJ = upd_room a (\<lambda>gs. gs\<lparr>players := players gs @ [new], status := playing\<rparr>) s"
  define s1 where "s1 = upd_room a (\<lambda>gs. gs\<lparr>players := players gs @ [new]\<rparr>) s"
  define es where "es = [Emit (ToSocket p) room_joined (state_payload (heap s1 a)),
                      Emit (ToRoomExcept rm p) player_joined
                        (JObj [(''gameState'', sanitizeGameStateForClient (heap s1 a)),
                               (''newPlayerName'', JStr nm)])]"
  let ?s' = "startAllTimers rm a sJ"
  have nf: "\<not> maxPlayers (heap s a) \<le> int (length (players (heap s a)))" using full by simp
  have e: "join_room p rm nm s = Done ?s' (es @ [Emit (ToRoom rm) game_start (state_payload (heap ?s' a))])"
    using g w n nf full by (simp add: join_room_def Let_def sJ_def s1_def es_def new_def upd_room_def)
  have pj: "players (heap sJ a) = players (heap s a) @ [new]" by (simp add: sJ_def)
  have np: "p \<notin> pid ` set (players (heap s a))" using n by (auto simp: list_ex_iff)
  have dJ: "distinct (map pid (players (heap sJ a)))"
    using ok np by (simp add: pj room_ok_def new_def)
  have tJ: "\<forall>q \<in> set (players (heap sJ a)). \<not> isTimedOut q"
    using ok w by (auto simp: pj room_ok_def new_def)
  have rt: "retimed a sJ ?s'" by (rule startAllTimers_retimed)
  have st: "status (heap ?s' a) = playing" using retimed_same(1)[OF rt, of a] by (simp add: sJ_def)
  have mp: "map pid (players (heap ?s' a)) = map pid (players (heap s a)) @ [p]"
    using retimed_same(3)[OF rt, of a] by (simp add: pj new_def)
  have ng: "\<not> list_ex (\<lambda>e. emission_event e = game_start) es" by (simp add: es_def)
  show ?thesis using e ng st mp startAllTimers_armed[OF dJ tJ, of rm] by blast
qed

lemma join_not_full:
  assumes r: "reach pf s" and g: "map_of (gameRooms s) rm = Some a" and w: "status (heap s a) = waiting"
    and n: "\<not> list_ex (\<lambda>q. pid q = p) (players (heap s a))"
    and nfull: "int (length (players (heap s a))) + 1 \<noteq> maxPlayers (heap s a)"
  shows "\<exists>s' es. join_room p rm nm s = Done s' es \<and>
           \<not> list_ex (\<lambda>e. emission_event e = game_start) es \<and>
           status (heap s' a) = waiting \<and>
           map pid (players (heap s' a)) = map pid (players (heap s a)) @ [p]"
proof -
  have ok: "room_ok (heap s a)" by (rule inv_room_ok[OF reach_inv[OF r]])
  have nf: "\<not> maxPlayers (heap s a) \<le> int (length (players (heap s a)))"
    using ok w by (simp add: room_ok_def)
  show ?thesis using g w n nf nfull by (simp add: join_room_def Let_def)
qed

lemma join_status_change:
  assumes "status (heap (result_state (join_room p rm nm s)) b) \<noteq> status (heap s b)"
  shows "map_of (gameRooms s) rm = Some b \<and> status (heap s b) = waiting \<and>
         \<not> list_ex (\<lambda>q. pid q = p) (players (heap s b)) \<and>
         int (length (players (heap s b))) + 1 = maxPlayers (heap s b) \<and>
         status (heap (result_state (join_room p rm nm s)) b) = playing"
proof (cases "map_of (gameRooms s) rm")
  case None then show ?thesis using assms by (simp add: join_room_def)
next
  case (Some a)
  show ?thesis
  proof (cases "\<not> list_ex (\<lambda>q. pid q = p) (players (heap s a)) \<and>
                \<not> maxPlayers (heap s a) \<le> int (length (players (heap s a))) \<and> status (heap s a) = waiting")
    case False
    then have "result_state (join_room p rm nm s) = s" using Some by (auto simp: join_room_def)
    then show ?thesis using assms by simp
  next
    case c: True
    show ?thesis
    proof (cases "int (length (players (heap s a))) + 1 = maxPlayers (heap s a)")
      case False
      have "status (heap (result_state (join_room p rm nm s)) b) = status (heap s b)"
        using Some c False by (simp add: join_room_def Let_def)
      then show ?thesis using assms by simp
    next
      case True
      define sJ where "sJ = upd_room a (\<lambda>gs. gs\<lparr>players := players gs @
              [\<lparr>pid = p, name = nm, guesses = [], timeRemaining = or_minus1 (timeLimit (heap s a)),
                isReady = True, isTimedOut = False\<rparr>], status := playing\<rparr>) s"
      have e: "result_state (join_room p rm nm s) = startAllTimers rm a sJ"
        using Some c True by (simp add: join_room_def Let_def sJ_def upd_room_def)
      have st: "status (heap (startAllTimers rm a sJ) b) = status (heap sJ b)"
        by (rule retimed_same[OF startAllTimers_retimed])
      have ba: "b = a" using assms unfolding e st by (cases "b = a") (simp_all add: sJ_def)
      show ?thesis using Some c True ba unfolding e st by (simp add: sJ_def)
    qed
  qed
qed

text \<open>
  Claim C3. Let a room of a reachable state be registered and \<open>waiting\<close>, and let a socket
  that is not in it send \<open>join_room\<close>. If the room lacks exactly one player, the handler returns
  with the room \<open>playing\<close>, the caller appended to the players, one \<open>game_start\<close> sent (last, to
  the room), and every player of the room holding the time limit as remaining time together
  with a timer registered under the room id and the player's id, or \<open>-1\<close> when the room has
  no time limit. Otherwise the caller is appended and the room stays \<open>waiting\<close>, with no
  \<open>game_start\<close>. And whenever any \<open>join_room\<close> changes the status of any room, that room is the
  addressed one, it was \<open>waiting\<close> and lacking exactly the caller, and it is now \<open>playing\<close>: a
  room that is \<open>playing\<close> or \<open>finished\<close> is never started again by a join.
\<close>

theorem join_room_starts_game:
  assumes "reach pf s" "map_of (gameRooms s) rm = Some a" "status (heap s a) = waiting"
    "\<not> list_ex (\<lambda>q. pid q = p) (players (heap s a))"
  shows "(int (length (players (heap s a))) + 1 = maxPlayers (heap s a) \<longrightarrow>
           (\<exists>s' es. join_room p rm nm s
                       = Done s' (es @ [Emit (ToRoom rm) game_start (state_payload (heap s' a))]) \<and>
              \<not> list_ex (\<lambda>e. emission_event e = game_start) es \<and>
              status (heap s' a) = playing \<and>
              map pid (players (heap s' a)) = map pid (players (heap s a)) @ [p] \<and>
              (\<forall>q \<in> set (players (heap s' a)).
                  case timeLimit (heap s' a) of
                    Some t \<Rightarrow> timeRemaining q = t \<and> has_timer rm (pid q) a s'
                  | None \<Rightarrow> timeRemaining q = - 1))) \<and>
         (int (length (players (heap s a))) + 1 \<noteq> maxPlayers (heap s a) \<longrightarrow>
           (\<exists>s' es. join_room p rm nm s = Done s' es \<and>
              \<not> list_ex (\<lambda>e. emission_event e = game_start) es \<and>
              status (heap s' a) = waiting \<and>
              map pid (players (heap s' a)) = map pid (players (heap s a)) @ [p])) \<and>
         (\<forall>p' rm' nm' b.
             status (heap (result_state (join_room p' rm' nm' s)) b) \<noteq> status (heap s b) \<longrightarrow>
               map_of (gameRooms s) rm' = Some b \<and> status (heap s b) = waiting \<and>
               \<not> list_ex (\<lambda>q. pid q = p') (players (heap s b)) \<and>
               int (length (players (heap s b))) + 1 = maxPlayers (heap s b) \<and>
               status (heap (result_state (join_room p' rm' nm' s)) b) = playing)"
  using join_fills[OF assms] join_not_full[OF assms] join_status_change by blast
lemma bigRoomState_rooms: "gameRooms bigRoomState = [([82, 49], 0)]"
  by code_simp

lemma bigRoomState_room: "heap bigRoomState 0 =
     \<lparr>roomId = [82, 49],
      players = [\<lparr>pid = [65], name = [97, 110, 110], guesses = [], timeRemaining = - 1,
                  isReady = True, isTimedOut = False\<rparr>],
      maxPlayers = 3, wordLength = 5, timeLimit = None, status = waiting,
      solution = [107, 97, 112, 97, 107], createdAt = 0, rematchRequest = None\<rparr>"
  by code_simp

theorem join_room_starts_game_witness:
  "reach demoPlatform createdState \<and> reach demoPlatform bigRoomState \<and>
   (\<exists>s' es. join_room [66] [82, 49] [98, 111, 98] createdState
               = Done s' (es @ [Emit (ToRoom [82, 49]) game_start (state_payload (heap s' 0))]) \<and>
      \<not> list_ex (\<lambda>e. emission_event e = game_start) es \<and>
      status (heap s' 0) = playing \<and>
      map pid (players (heap s' 0)) = [[65], [66]] \<and>
      (\<forall>q \<in> set (players (heap s' 0)).
          case timeLimit (heap s' 0) of
            Some t \<Rightarrow> timeRemaining q = t \<and> has_timer [82, 49] (pid q) 0 s'
          | None \<Rightarrow> timeRemaining q = - 1)) \<and>
   (\<exists>s' es. join_room [66] [82, 49] [98, 111, 98] bigRoomState = Done s' es \<and>
      \<not> list_ex (\<lambda>e. emission_event e = game_start) es \<and>
      status (heap s' 0) = waiting \<and>
      map pid (players (heap s' 0)) = [[65], [66]])"
proof -
  have r1: "reach demoPlatform createdState"
    unfolding createdState_def by (rule reach_run[OF reach_init])
  have r2: "reach demoPlatform bigRoomState"
    unfolding bigRoomState_def by (rule reach_run[OF reach_init])
  have g1: "map_of (gameRooms createdState) [82, 49] = Some 0" by (simp add: createdState_rooms)
  have g2: "map_of (gameRooms bigRoomState) [82, 49] = Some 0" by (simp add: bigRoomState_rooms)
  have w1: "status (heap createdState 0) = waiting" by (simp add: createdState_room)
  have w2: "status (heap bigRoomState 0) = waiting" by (simp add: bigRoomState_room)
  have n1: "\<not> list_ex (\<lambda>q. pid q = [66]) (players (heap createdState 0))" by (simp add: createdState_room)
  have n2: "\<not> list_ex (\<lambda>q. pid q = [66]) (players (heap bigRoomState 0))" by (simp add: bigRoomState_room)
  note T1 = join_room_starts_game [OF r1 g1 w1 n1, of "[98, 111, 98]"]
  note T2 = join_room_starts_game [OF r2 g2 w2 n2, of "[98, 111, 98]"]
  have a: "\<exists>s' es. join_room [66] [82, 49] [98, 111, 98] createdState
               = Done s' (es @ [Emit (ToRoom [82, 49]) game_start (state_payload (heap s' 0))]) \<and>
      \<not> list_ex (\<lambda>e. emission_event e = game_start) es \<and>
      status (heap s' 0) = playing \<and>
      map pid (players (heap s' 0)) = [[65], [66]] \<and>
      (\<forall>q \<in> set (players (heap s' 0)).
          case timeLimit (heap s' 0) of
            Some t \<Rightarrow> timeRemaining q = t \<and> has_timer [82, 49] (pid q) 0 s'
          | None \<Rightarrow> timeRemaining q = - 1)"
    using T1 [THEN conjunct1] by (simp add: createdState_room)
  have b: "\<exists>s' es. join_room [66] [82, 49] [98, 111, 98] bigRoomState = Done s' es \<and>
      \<not> list_ex (\<lambda>e. emission_event e = game_start) es \<and>
      status (heap s' 0) = waiting \<and>
      map pid (players (heap s' 0)) = [[65], [66]]"
    using T2 [THEN conjunct2, THEN conjunct1] by (simp add: bigRoomState_room)
  show ?thesis using r1 r2 a b by blast
qed

subsection \<open>What the notifications disclose\<close>

lemma feedback_json_no_key: "\<not> has_key k (feedback_json f)"
  by (simp add: feedback_json_def split: option.splits feedback.splits)

lemma guess_json_no_solution: "\<not> has_key ''solution'' (guess_json g)"
  by (simp add: guess_json_def list_ex_iff feedback_json_no_key)

lemma player_json_no_solution: "\<not> has_key ''solution'' (player_json p)"
  by (simp add: player_json_def list_ex_iff guess_json_no_solution)

lemma status_json_no_key: "\<not> has_key k (status_json st)"
  by (simp add: status_json_def split: status.splits)

lemma rematch_json_no_solution: "\<not> has_key ''solution'' (rematch_json r)"
  by (simp add: rematch_json_def split: option.splits)

lemma sanitize_no_solution: "\<not> has_key ''solution'' (sanitizeGameStateForClient gs)"
  by (auto simp: sanitizeGameStateForClient_def gameState_fields_def list_ex_iff
        player_json_no_solution status_json_no_key rematch_json_no_solution
      split: option.splits)

lemma state_payload_no_solution: "\<not> has_key ''solution'' (state_payload gs)"
  by (simp add: state_payload_def sanitize_no_solution)




lemma discreet_state [simp]: "ev \<noteq> game_over \<Longrightarrow> discreet s' (Emit t ev (state_payload gs))"
  by (auto simp: discreet_def state_payload_no_solution) (auto simp: state_payload_def)

lemma discreet_err [simp]: "discreet s' (err p m)" "discreet s' (invalid p m)"
  by (simp_all add: discreet_def err_def invalid_def)

lemma discreet_plain [simp]:
  "discreet s' (Emit t rematch_countdown (JObj [(''seconds'', JNum c)]))"
  "discreet s' (Emit t timer_update (JObj [(''playerId'', JStr p), (''timeRemaining'', JNum n)]))"
  "discreet s' (Emit t player_timeout (JObj [(''message'', JMsg m)]))"
  "discreet s' (Emit t room_created (JObj [(''roomId'', JStr r)]))"
  "discreet s' (Emit t rematch_requested (JObj [(''requesterName'', JStr nm)]))"
  "discreet s' (Emit t rematch_accepted JNull)"
  "discreet s' (Emit t rematch_declined JNull)"
  by (simp_all add: discreet_def)




















end
